theory Spec2Isabelle
  imports Main "HOL-Library.Word"
begin

section \<open>Data model of the guardian daemon\<close>

text \<open>
  The interfaces of the daemon share field names (\<open>blockNumber\<close>, \<open>blockHash\<close>,
  \<open>nonce\<close>, ...), so every field carries a short prefix naming its interface:
  \<open>ev_\<close> for \<open>VerifiedDepositEvent\<close>, \<open>grp_\<close> for \<open>VerifiedDepositedEventGroup\<close>,
  \<open>bd_\<close> for \<open>BlockData\<close>, \<open>rk_\<close> for \<open>RegistryKey\<close>, \<open>smd_\<close> for
  \<open>StakingModuleData\<close> and \<open>cs_\<close> for \<open>ContractsState\<close>. Block numbers and log
  indexes are JavaScript numbers holding integers; hashes, public keys, signatures and
  withdrawal credentials are hex strings compared with \<open>===\<close>.
\<close>

record VerifiedDepositEvent =
  ev_blockNumber :: int
  ev_blockHash :: string
  ev_logIndex :: int
  ev_pubkey :: string
  ev_wc :: string
  ev_valid :: bool

record VerifiedDepositedEventGroup =
  grp_events :: "VerifiedDepositEvent list"
  grp_startBlock :: int
  grp_endBlock :: int
  grp_isValid :: bool

record BlockData =
  bd_blockNumber :: int
  bd_blockHash :: string
  bd_depositRoot :: string
  bd_depositedEvents :: VerifiedDepositedEventGroup
  bd_guardianAddress :: string
  bd_guardianIndex :: int
  bd_lidoWC :: string
  bd_securityVersion :: int
  bd_alreadyPausedDeposits :: bool
  bd_theftHappened :: bool
  bd_walletBalanceCritical :: bool

record RegistryKey =
  rk_key :: string
  rk_depositSignature :: string
  rk_operatorIndex :: int
  rk_used :: bool
  rk_index :: int
  rk_moduleAddress :: string

record StakingModuleData =
  smd_nonce :: int
  smd_stakingModuleId :: int
  smd_blockHash :: string
  smd_lastChangedBlockHash :: string
  smd_unusedKeys :: "string list"
  smd_vettedUnusedKeys :: "RegistryKey list"
  smd_duplicatedKeys :: "RegistryKey list"

text \<open>Everything the modelled code can throw.\<close>

datatype error =
  InconsistentLastChangedBlockHash
  | ExpectedEventNotFound
  | RequestError string
  | InvalidArgument string
  | NumericFault string

section \<open>Front-run detection against the vetted unused keys\<close>

text \<open>
  \<open>getKeysIntersections\<close>: the deposited events whose public key is one of the module's
  vetted unused keys (the \<open>Set\<close> of the source is membership in the list of keys).
\<close>

definition getKeysIntersections ::
  "StakingModuleData \<Rightarrow> BlockData \<Rightarrow> VerifiedDepositEvent list" where
  "getKeysIntersections stakingModuleData blockData =
     (let vettedUnusedKeys = map rk_key (smd_vettedUnusedKeys stakingModuleData)
      in filter (\<lambda>e. ev_pubkey e \<in> set vettedUnusedKeys)
           (grp_events (bd_depositedEvents blockData)))"

text \<open>
  \<open>excludeEligibleIntersections\<close>: drops deposits made with the Lido withdrawal
  credentials and deposits with an invalid signature.
\<close>

definition excludeEligibleIntersections ::
  "BlockData \<Rightarrow> VerifiedDepositEvent list \<Rightarrow> VerifiedDepositEvent list" where
  "excludeEligibleIntersections blockData intersections =
     filter (\<lambda>e. ev_wc e \<noteq> bd_lidoWC blockData \<and> ev_valid e) intersections"

text \<open>
  \<open>getFrontRunAttempts\<close>: the metrics call of the source only reports the two lists and
  is left out.
\<close>

definition getFrontRunAttempts :: "StakingModuleData \<Rightarrow> BlockData \<Rightarrow> RegistryKey list" where
  "getFrontRunAttempts stakingModuleData blockData =
     (let keysIntersections = getKeysIntersections stakingModuleData blockData;
          frontRunAttempts = excludeEligibleIntersections blockData keysIntersections;
          keys = set (map ev_pubkey frontRunAttempts)
      in filter (\<lambda>k. rk_key k \<in> keys) (smd_vettedUnusedKeys stakingModuleData))"

text \<open>Concrete data used to run the definitions.\<close>

definition lidoWC0 :: string where
  "lidoWC0 = ''0x01lido''"

definition attackerWC0 :: string where
  "attackerWC0 = ''0x01evil''"

definition mkEvent :: "int \<Rightarrow> int \<Rightarrow> string \<Rightarrow> string \<Rightarrow> bool \<Rightarrow> VerifiedDepositEvent" where
  "mkEvent bn li pk w v =
     \<lparr>ev_blockNumber = bn, ev_blockHash = ''0xb'', ev_logIndex = li,
      ev_pubkey = pk, ev_wc = w, ev_valid = v\<rparr>"

definition mkBlockData :: "VerifiedDepositEvent list \<Rightarrow> BlockData" where
  "mkBlockData evs =
     \<lparr>bd_blockNumber = 100, bd_blockHash = ''0xb100'', bd_depositRoot = ''0xroot'',
      bd_depositedEvents =
        \<lparr>grp_events = evs, grp_startBlock = 0, grp_endBlock = 100, grp_isValid = True\<rparr>,
      bd_guardianAddress = ''0xguardian'', bd_guardianIndex = 0, bd_lidoWC = lidoWC0,
      bd_securityVersion = 3, bd_alreadyPausedDeposits = False, bd_theftHappened = False,
      bd_walletBalanceCritical = False\<rparr>"

definition mkKey :: "string \<Rightarrow> string \<Rightarrow> RegistryKey" where
  "mkKey pk sg =
     \<lparr>rk_key = pk, rk_depositSignature = sg, rk_operatorIndex = 0, rk_used = False,
      rk_index = 0, rk_moduleAddress = ''0xmodule''\<rparr>"

definition mkModuleData :: "RegistryKey list \<Rightarrow> StakingModuleData" where
  "mkModuleData ks =
     \<lparr>smd_nonce = 7, smd_stakingModuleId = 1, smd_blockHash = ''0xb100'',
      smd_lastChangedBlockHash = ''0xlast'', smd_unusedKeys = map rk_key ks,
      smd_vettedUnusedKeys = ks, smd_duplicatedKeys = []\<rparr>"

section \<open>Historical front-run detection\<close>

text \<open>
  \<open>isFirstEventEarlier\<close>: in the same block the log index decides, otherwise the block
  number.
\<close>

definition isFirstEventEarlier :: "VerifiedDepositEvent \<Rightarrow> VerifiedDepositEvent \<Rightarrow> bool" where
  "isFirstEventEarlier firstEvent secondEvent =
     (let isSameBlock = (ev_blockNumber firstEvent = ev_blockNumber secondEvent)
      in if isSameBlock then ev_logIndex firstEvent < ev_logIndex secondEvent
         else ev_blockNumber firstEvent < ev_blockNumber secondEvent)"

text \<open>
  The answer of the keys-index to \<open>GET /v1/keys\<close> and \<open>POST /v1/keys/find\<close>: the keys
  and the snapshot of the execution-layer block the answer was computed at.
\<close>

record ELBlockSnapshot =
  el_blockNumber :: int
  el_blockHash :: string
  el_lastChangedBlockHash :: string

record KeyListResponse =
  klr_data :: "RegistryKey list"
  klr_meta :: ELBlockSnapshot

text \<open>
  The body of the \<open>forEach\<close> that fills \<open>potentialLidoDepositsKeysMap\<close>: an event is
  stored under its public key unless the event already stored there is earlier. The
  object is a map from public keys to events; public keys are \<open>0x\<close> hex strings, none
  of which names a member of \<open>Object.prototype\<close>, so a key that was never stored reads
  as \<open>undefined\<close>.
\<close>

definition rememberLidoDeposit ::
  "(string \<rightharpoonup> VerifiedDepositEvent) \<Rightarrow> VerifiedDepositEvent \<Rightarrow> (string \<rightharpoonup> VerifiedDepositEvent)" where
  "rememberLidoDeposit m event =
     (case m (ev_pubkey event) of
        Some existed \<Rightarrow>
          if isFirstEventEarlier existed event then m else m(ev_pubkey event \<mapsto> event)
      | None \<Rightarrow> m(ev_pubkey event \<mapsto> event))"

definition potentialLidoDepositsKeysMap ::
  "BlockData \<Rightarrow> (string \<rightharpoonup> VerifiedDepositEvent)" where
  "potentialLidoDepositsKeysMap blockData =
     (let potentialLidoDepositsEvents =
            filter (\<lambda>e. ev_wc e = bd_lidoWC blockData \<and> ev_valid e)
              (grp_events (bd_depositedEvents blockData))
      in foldl rememberLidoDeposit Map.empty potentialLidoDepositsEvents)"

text \<open>
  The last \<open>filter\<close> of \<open>getHistoricalFrontRun\<close>, whose callback throws when the map has
  no Lido deposit for the suspected event's key.
\<close>

fun frontRunnedFilter ::
  "(string \<rightharpoonup> VerifiedDepositEvent) \<Rightarrow> VerifiedDepositEvent list
     \<Rightarrow> error + VerifiedDepositEvent list" where
  "frontRunnedFilter m [] = Inr []"
| "frontRunnedFilter m (suspectedEvent # rest) =
     (case m (ev_pubkey suspectedEvent) of
        None \<Rightarrow> Inl ExpectedEventNotFound
      | Some sameKeyLidoDeposit \<Rightarrow>
          (case frontRunnedFilter m rest of
             Inl err \<Rightarrow> Inl err
           | Inr kept \<Rightarrow>
               Inr (if isFirstEventEarlier suspectedEvent sameKeyLidoDeposit
                    then suspectedEvent # kept else kept)))"

text \<open>
  \<open>getHistoricalFrontRun\<close>. The keys-index client is the parameter \<open>getKeysByPubkeys\<close>
  (a request either fails or answers). The result is the list of request bodies sent to
  \<open>POST /v1/keys/find\<close> during the call, and what the call returned or threw.
\<close>

definition getHistoricalFrontRun ::
  "(string list \<Rightarrow> error + KeyListResponse) \<Rightarrow> BlockData
     \<Rightarrow> string list list \<times> (error + bool)" where
  "getHistoricalFrontRun getKeysByPubkeys blockData =
     (let events = grp_events (bd_depositedEvents blockData);
          lidoWC = bd_lidoWC blockData;
          lidoMap = potentialLidoDepositsKeysMap blockData;
          duplicatedDepositEvents =
            filter (\<lambda>e. lidoMap (ev_pubkey e) \<noteq> None \<and> ev_wc e \<noteq> lidoWC) events;
          validDuplicatedDepositEvents = filter ev_valid duplicatedDepositEvents
      in case frontRunnedFilter lidoMap validDuplicatedDepositEvents of
           Inl err \<Rightarrow> ([], Inl err)
         | Inr frontRunnedDepositEvents \<Rightarrow>
             (let frontRunnedDepositKeys = map ev_pubkey frontRunnedDepositEvents
              in if frontRunnedDepositKeys = [] then ([], Inr False)
                 else (case getKeysByPubkeys frontRunnedDepositKeys of
                         Inl err \<Rightarrow> ([frontRunnedDepositKeys], Inl err)
                       | Inr lidoDepositedKeys \<Rightarrow>
                           ([frontRunnedDepositKeys],
                            Inr (length (klr_data lidoDepositedKeys) \<noteq> 0)))))"

text \<open>
  The condition of the specification on a deposited event \<open>E\<close>, in its words: a valid
  deposit with the Lido withdrawal credentials is a Lido deposit; the earliest Lido
  deposit of a key is one that no Lido deposit of the same key precedes; \<open>E\<close> is flagged
  when its withdrawal credentials are not Lido's and it is earlier than the earliest Lido
  deposit of its key.
\<close>

definition isLidoDeposit :: "BlockData \<Rightarrow> VerifiedDepositEvent \<Rightarrow> bool" where
  "isLidoDeposit blockData l =
     (l \<in> set (grp_events (bd_depositedEvents blockData))
      \<and> ev_wc l = bd_lidoWC blockData \<and> ev_valid l)"

definition isEarliestLidoDeposit :: "BlockData \<Rightarrow> VerifiedDepositEvent \<Rightarrow> bool" where
  "isEarliestLidoDeposit blockData l =
     (isLidoDeposit blockData l
      \<and> (\<forall>l' \<in> set (grp_events (bd_depositedEvents blockData)).
            isLidoDeposit blockData l' \<and> ev_pubkey l' = ev_pubkey l
              \<longrightarrow> \<not> isFirstEventEarlier l' l))"

definition precedesLidoDeposit :: "BlockData \<Rightarrow> VerifiedDepositEvent \<Rightarrow> bool" where
  "precedesLidoDeposit blockData e =
     (e \<in> set (grp_events (bd_depositedEvents blockData))
      \<and> ev_wc e \<noteq> bd_lidoWC blockData
      \<and> (\<exists>l \<in> set (grp_events (bd_depositedEvents blockData)).
            isEarliestLidoDeposit blockData l \<and> ev_pubkey l = ev_pubkey e
            \<and> isFirstEventEarlier e l))"

text \<open>A keys-index that knows every requested public key as a Lido key.\<close>

definition keysIndexOwningAll :: "string list \<Rightarrow> error + KeyListResponse" where
  "keysIndexOwningAll pubkeys =
     Inr \<lparr>klr_data = map (\<lambda>pk. mkKey pk ''0xsig'') pubkeys,
          klr_meta = \<lparr>el_blockNumber = 100, el_blockHash = ''0xb100'',
                      el_lastChangedBlockHash = ''0xlast''\<rparr>\<rparr>"

section \<open>Contract states and the re-signing window\<close>

record ContractsState =
  cs_nonce :: int
  cs_depositRoot :: string
  cs_blockNumber :: int
  cs_lastChangedBlockHash :: string

text \<open>
  \<open>isSameContractsStates\<close>. A state that is \<open>null\<close> or \<open>undefined\<close> is \<open>None\<close>. The
  constant \<open>GUARDIAN_DEPOSIT_RESIGNING_BLOCKS\<close> is declared in \<open>guardian.constants\<close>,
  which is not among the sources, so it is the first parameter; for a positive constant
  \<open>Math.floor(n / c)\<close> on an integer \<open>n\<close> is \<open>n div c\<close> (the quotient of \<open>int\<close>
  rounds down).
\<close>

definition isSameContractsStates ::
  "int \<Rightarrow> ContractsState option \<Rightarrow> ContractsState option \<Rightarrow> bool" where
  "isSameContractsStates GUARDIAN_DEPOSIT_RESIGNING_BLOCKS firstState secondState =
     (case firstState of
        None \<Rightarrow> False
      | Some f \<Rightarrow>
          (case secondState of
             None \<Rightarrow> False
           | Some s \<Rightarrow>
               if cs_depositRoot f \<noteq> cs_depositRoot s then False
               else if cs_lastChangedBlockHash f \<noteq> cs_lastChangedBlockHash s then False
               else if cs_blockNumber f div GUARDIAN_DEPOSIT_RESIGNING_BLOCKS
                       \<noteq> cs_blockNumber s div GUARDIAN_DEPOSIT_RESIGNING_BLOCKS then False
               else True))"

record DepositMessage =
  dm_depositRoot :: string
  dm_nonce :: int
  dm_blockNumber :: int
  dm_blockHash :: string
  dm_guardianAddress :: string
  dm_guardianIndex :: int
  dm_signature :: string
  dm_stakingModuleId :: int

text \<open>
  What one call of \<open>handleCorrectKeys\<close> did: returned early because the contract state
  did not change, failed while signing, or signed and handed a deposit message to
  \<open>sendDepositMessage\<close>.
\<close>

datatype CorrectKeysOutcome =
  StateDidNotChange
  | SigningFailed error
  | DepositMessageSent DepositMessage

text \<open>
  \<open>handleCorrectKeys\<close>. The state of the service is \<open>lastContractsStateByModuleId\<close>;
  it is updated before the early return. \<open>signDepositData\<close> is the security service's
  method (arguments in the order of the call), which can fail.
\<close>

definition handleCorrectKeys ::
  "int \<Rightarrow> (string \<Rightarrow> int \<Rightarrow> int \<Rightarrow> string \<Rightarrow> int \<Rightarrow> error + string)
     \<Rightarrow> StakingModuleData \<Rightarrow> BlockData \<Rightarrow> (int \<rightharpoonup> ContractsState)
     \<Rightarrow> CorrectKeysOutcome \<times> (int \<rightharpoonup> ContractsState)" where
  "handleCorrectKeys GUARDIAN_DEPOSIT_RESIGNING_BLOCKS signDepositData stakingModuleData
       blockData lastContractsStateByModuleId =
     (let blockNumber = bd_blockNumber blockData;
          blockHash = bd_blockHash blockData;
          depositRoot = bd_depositRoot blockData;
          nonce = smd_nonce stakingModuleData;
          stakingModuleId = smd_stakingModuleId stakingModuleData;
          currentContractState =
            \<lparr>cs_nonce = nonce, cs_depositRoot = depositRoot, cs_blockNumber = blockNumber,
             cs_lastChangedBlockHash = smd_lastChangedBlockHash stakingModuleData\<rparr>;
          lastContractsState = lastContractsStateByModuleId stakingModuleId;
          isSameContractsState =
            isSameContractsStates GUARDIAN_DEPOSIT_RESIGNING_BLOCKS
              (Some currentContractState) lastContractsState;
          updated = lastContractsStateByModuleId(stakingModuleId \<mapsto> currentContractState)
      in if isSameContractsState then (StateDidNotChange, updated)
         else (case signDepositData depositRoot nonce blockNumber blockHash stakingModuleId of
                 Inl err \<Rightarrow> (SigningFailed err, updated)
               | Inr signature \<Rightarrow>
                   (DepositMessageSent
                      \<lparr>dm_depositRoot = depositRoot, dm_nonce = nonce,
                       dm_blockNumber = blockNumber, dm_blockHash = blockHash,
                       dm_guardianAddress = bd_guardianAddress blockData,
                       dm_guardianIndex = bd_guardianIndex blockData,
                       dm_signature = signature, dm_stakingModuleId = stakingModuleId\<rparr>,
                    updated)))"

text \<open>
  Two signers for running the definitions: one whose signature names what was signed,
  and one whose request for the message prefix fails.
\<close>

definition signDepositData0 :: "string \<Rightarrow> int \<Rightarrow> int \<Rightarrow> string \<Rightarrow> int \<Rightarrow> error + string" where
  "signDepositData0 depositRoot nonce blockNumber blockHash stakingModuleId =
     Inr (''sig:'' @ depositRoot @ '':'' @ blockHash)"

definition signDepositDataFailing ::
  "string \<Rightarrow> int \<Rightarrow> int \<Rightarrow> string \<Rightarrow> int \<Rightarrow> error + string" where
  "signDepositDataFailing depositRoot nonce blockNumber blockHash stakingModuleId =
     Inl (RequestError ''getAttestMessagePrefix'')"

section \<open>Consistency of the two keys-index requests\<close>

text \<open>
  \<open>StakingRouterService.isEqualLastChangedBlockHash\<close> and
  \<open>KeysApiService.verifyMetaDataConsistency\<close>: both log and throw when the hashes of the
  two requests differ, and return nothing otherwise.
\<close>

definition isEqualLastChangedBlockHash :: "string \<Rightarrow> string \<Rightarrow> error + unit" where
  "isEqualLastChangedBlockHash firstRequestHash secondRequestHash =
     (if firstRequestHash \<noteq> secondRequestHash then Inl InconsistentLastChangedBlockHash
      else Inr ())"

definition verifyMetaDataConsistency :: "string \<Rightarrow> string \<Rightarrow> error + unit" where
  "verifyMetaDataConsistency firstRequestHash secondRequestHash =
     (if firstRequestHash \<noteq> secondRequestHash then Inl InconsistentLastChangedBlockHash
      else Inr ())"

text \<open>
  \<open>KeysApiService.updateCachedKeys\<close> and \<open>getKeys\<close>. The state is \<open>cachedKeys\<close>;
  \<open>fetchKeys\<close> is the outcome of the request \<open>GET /v1/keys\<close>. The cache is written only
  after the consistency check has passed.
\<close>

definition updateCachedKeys ::
  "(error + KeyListResponse) \<Rightarrow> KeyListResponse option \<Rightarrow> ELBlockSnapshot
     \<Rightarrow> (error + KeyListResponse) \<times> KeyListResponse option" where
  "updateCachedKeys fetchKeys cachedKeys elBlockSnapshot =
     (case fetchKeys of
        Inl err \<Rightarrow> (Inl err, cachedKeys)
      | Inr result \<Rightarrow>
          (case verifyMetaDataConsistency (el_lastChangedBlockHash elBlockSnapshot)
                  (el_lastChangedBlockHash (klr_meta result)) of
             Inl err \<Rightarrow> (Inl err, cachedKeys)
           | Inr _ \<Rightarrow> (Inr result, Some result)))"

definition getKeys ::
  "(error + KeyListResponse) \<Rightarrow> KeyListResponse option \<Rightarrow> ELBlockSnapshot
     \<Rightarrow> (error + KeyListResponse) \<times> KeyListResponse option" where
  "getKeys fetchKeys cachedKeys elBlockSnapshot =
     (case cachedKeys of
        None \<Rightarrow> updateCachedKeys fetchKeys cachedKeys elBlockSnapshot
      | Some cached \<Rightarrow>
          (let cachedHash = el_lastChangedBlockHash (klr_meta cached);
               currentHash = el_lastChangedBlockHash elBlockSnapshot
           in if cachedHash \<noteq> currentHash
              then updateCachedKeys fetchKeys cachedKeys elBlockSnapshot
              else (Inr cached, cachedKeys)))"

text \<open>
  The messages a tick hands to the message broker. A pause message has the fields
  \<open>handleKeysIntersections\<close> gives it.
\<close>

record PauseMessage =
  pm_depositRoot :: string
  pm_nonce :: int
  pm_guardianAddress :: string
  pm_guardianIndex :: int
  pm_blockNumber :: int
  pm_blockHash :: string
  pm_signature :: string
  pm_stakingModuleId :: int

datatype BrokerMessage =
  Deposit DepositMessage
  | Pause PauseMessage
  | Ping "int list"

text \<open>
  What \<open>GuardianService.handleNewBlock\<close> talks to during one tick: the operators
  request, the initialisation of the cached contracts at the snapshot's block hash, the
  block guard, the keys request, and the rest of the cycle after the consistency check
  (from \<open>depositService.handleNewBlock\<close> to \<open>pingMessageBroker\<close>), which yields the
  messages it sent and the error that stopped it, if any.
\<close>

record 'ops TickEnv =
  te_getOperatorListWithModule :: "error + ('ops \<times> ELBlockSnapshot)"
  te_initCachedContracts :: "string \<Rightarrow> error + unit"
  te_isNeedToProcessNewState :: "string \<Rightarrow> int \<Rightarrow> bool"
  te_getKeys :: "error + KeyListResponse"
  te_processState ::
    "'ops \<Rightarrow> ELBlockSnapshot \<Rightarrow> RegistryKey list \<Rightarrow> BrokerMessage list \<times> error option"

text \<open>
  The outcome of a tick: the messages sent, the error caught and logged by the
  \<open>try\<close>/\<open>catch\<close> around the cycle, and whether \<open>setLastProcessedStateMeta\<close> was
  reached.
\<close>

record TickResult =
  tr_messages :: "BrokerMessage list"
  tr_loggedError :: "error option"
  tr_stateProcessed :: bool

definition tickFailed :: "error \<Rightarrow> TickResult" where
  "tickFailed err = \<lparr>tr_messages = [], tr_loggedError = Some err, tr_stateProcessed = False\<rparr>"

definition handleNewBlock :: "'ops TickEnv \<Rightarrow> TickResult" where
  "handleNewBlock env =
     (case te_getOperatorListWithModule env of
        Inl err \<Rightarrow> tickFailed err
      | Inr (operatorsByModules, meta) \<Rightarrow>
          (case te_initCachedContracts env (el_blockHash meta) of
             Inl err \<Rightarrow> tickFailed err
           | Inr _ \<Rightarrow>
               if \<not> te_isNeedToProcessNewState env (el_blockHash meta) (el_blockNumber meta)
               then \<lparr>tr_messages = [], tr_loggedError = None, tr_stateProcessed = False\<rparr>
               else (case te_getKeys env of
                       Inl err \<Rightarrow> tickFailed err
                     | Inr keysResponse \<Rightarrow>
                         (case isEqualLastChangedBlockHash (el_lastChangedBlockHash meta)
                                 (el_lastChangedBlockHash (klr_meta keysResponse)) of
                            Inl err \<Rightarrow> tickFailed err
                          | Inr _ \<Rightarrow>
                              (case te_processState env operatorsByModules meta
                                      (klr_data keysResponse) of
                                 (messages, failure) \<Rightarrow>
                                   \<lparr>tr_messages = messages, tr_loggedError = failure,
                                    tr_stateProcessed = (failure = None)\<rparr>)))))"

text \<open>A tick environment for running the definitions: the two hashes are its arguments.\<close>

definition mkSnapshot :: "string \<Rightarrow> ELBlockSnapshot" where
  "mkSnapshot h = \<lparr>el_blockNumber = 100, el_blockHash = ''0xb100'', el_lastChangedBlockHash = h\<rparr>"

definition mkTickEnv :: "string \<Rightarrow> string \<Rightarrow> unit TickEnv" where
  "mkTickEnv h1 h2 =
     \<lparr>te_getOperatorListWithModule = Inr ((), mkSnapshot h1),
      te_initCachedContracts = (\<lambda>blockHash. Inr ()),
      te_isNeedToProcessNewState = (\<lambda>blockHash blockNumber. True),
      te_getKeys = Inr \<lparr>klr_data = [mkKey ''0xaa'' ''0xs1''], klr_meta = mkSnapshot h2\<rparr>,
      te_processState = (\<lambda>ops meta ks. ([Ping [1]], None))\<rparr>"

section \<open>The deposit events cache\<close>

record DepositCacheHeaders =
  h_startBlock :: int
  h_endBlock :: int

record VerifiedDepositEventsCache =
  c_headers :: DepositCacheHeaders
  c_data :: "VerifiedDepositEvent list"
  c_lastValidEvent :: "VerifiedDepositEvent option"

definition DEPOSIT_EVENTS_STEP :: int where
  "DEPOSIT_EVENTS_STEP = 10000"

text \<open>
  The collaborators of \<open>DepositRegistryService\<close>, none of which is among the sources:
  the block of the finalized tag as the provider reports it, the deployment block of the
  deposit contract, the fetcher (which answers with an event group or fails), and the
  comparison of the root of the deposit tree over a list of events with
  \<open>get_deposit_root\<close> at a block hash.
\<close>

record DepositEnv =
  env_finalizedBlock :: "error + (int \<times> string)"
  env_deploymentBlock :: int
  env_fetchEventsFallOver :: "int \<Rightarrow> int \<Rightarrow> error + VerifiedDepositedEventGroup"
  env_rootMatches :: "VerifiedDepositEvent list \<Rightarrow> string \<Rightarrow> bool"

text \<open>
  The state the service works on: the persistent store, the events the sanity checker
  has put into its deposit tree, and the lines written with \<open>logger.error\<close>.
\<close>

record DepositRegistryState =
  s_store :: VerifiedDepositEventsCache
  s_indexed :: "VerifiedDepositEvent list"
  s_errorLog :: "string list"

text \<open>
  Modelled from the spec: \<open>verifyCacheBlock\<close> of the sanity checker, which is not among
  the sources, "returns \<open>false\<close> if \<open>cache.endBlock > currentBlock\<close>".
\<close>

definition verifyCacheBlock :: "VerifiedDepositEventsCache \<Rightarrow> int \<Rightarrow> bool" where
  "verifyCacheBlock cache currentBlock = (\<not> h_endBlock (c_headers cache) > currentBlock)"

text \<open>
  Modelled from the spec: the sanity checker and the store, which are not among the
  sources. \<open>addEventGroupToIndex\<close> "inserts leaves into the tree";
  \<open>verifyUpdatedEvents\<close> "compares [the contract's root] to \<open>tree.root()\<close>";
  \<open>verifyFreshEvents\<close> "clones the tree, applies \<open>freshEvents\<close>, compares to contract
  root"; \<open>insertEventsCacheBatch(header, data)\<close> writes the header and the events of the
  batch, which follow the cached ones; \<open>insertLastValidEvent\<close> writes \<open>lastValid\<close>.
\<close>

definition addEventGroupToIndex ::
  "VerifiedDepositEvent list \<Rightarrow> DepositRegistryState \<Rightarrow> DepositRegistryState" where
  "addEventGroupToIndex events st = st\<lparr>s_indexed := s_indexed st @ events\<rparr>"

definition verifyUpdatedEvents :: "DepositEnv \<Rightarrow> DepositRegistryState \<Rightarrow> string \<Rightarrow> bool" where
  "verifyUpdatedEvents env st finalizedBlockHash =
     env_rootMatches env (s_indexed st) finalizedBlockHash"

definition verifyFreshEvents ::
  "DepositEnv \<Rightarrow> DepositRegistryState \<Rightarrow> string \<Rightarrow> VerifiedDepositEvent list \<Rightarrow> bool" where
  "verifyFreshEvents env st blockHash freshEvents =
     env_rootMatches env (s_indexed st @ freshEvents) blockHash"

definition insertEventsCacheBatch ::
  "DepositCacheHeaders \<Rightarrow> VerifiedDepositEvent list \<Rightarrow> DepositRegistryState
     \<Rightarrow> DepositRegistryState" where
  "insertEventsCacheBatch headers events st =
     st\<lparr>s_store := (s_store st)\<lparr>c_headers := headers, c_data := c_data (s_store st) @ events\<rparr>\<rparr>"

definition insertLastValidEvent ::
  "VerifiedDepositEvent \<Rightarrow> DepositRegistryState \<Rightarrow> DepositRegistryState" where
  "insertLastValidEvent event st =
     st\<lparr>s_store := (s_store st)\<lparr>c_lastValidEvent := Some event\<rparr>\<rparr>"

text \<open>\<open>getCachedEvents\<close>: the stored cache, its block range starting no earlier than the
  deployment block.\<close>

definition getCachedEvents :: "DepositEnv \<Rightarrow> DepositRegistryState \<Rightarrow> VerifiedDepositEventsCache" where
  "getCachedEvents env st =
     (let headers = c_headers (s_store st);
          deploymentBlock = env_deploymentBlock env
      in (s_store st)
           \<lparr>c_headers := headers
              \<lparr>h_startBlock := max (h_startBlock headers) deploymentBlock,
               h_endBlock := max (h_endBlock headers) deploymentBlock\<rparr>\<rparr>)"

text \<open>
  \<open>getAllDepositedEvents\<close>. The result is the list of block ranges requested from the
  fetcher during the call, and the event group returned or the error thrown.
\<close>

definition getAllDepositedEvents ::
  "DepositEnv \<Rightarrow> DepositRegistryState \<Rightarrow> int \<Rightarrow> string
     \<Rightarrow> (int \<times> int) list \<times> (error + VerifiedDepositedEventGroup)" where
  "getAllDepositedEvents env st blockNumber blockHash =
     (let endBlock = blockNumber;
          cachedEvents = getCachedEvents env st;
          isCacheValid = verifyCacheBlock cachedEvents blockNumber
      in if \<not> isCacheValid
         then ([], Inr \<lparr>grp_events = c_data cachedEvents,
                        grp_startBlock = h_startBlock (c_headers cachedEvents),
                        grp_endBlock = h_endBlock (c_headers cachedEvents),
                        grp_isValid = False\<rparr>)
         else (let firstNotCachedBlock = h_endBlock (c_headers cachedEvents) + 1
               in case env_fetchEventsFallOver env firstNotCachedBlock endBlock of
                    Inl err \<Rightarrow> ([(firstNotCachedBlock, endBlock)], Inl err)
                  | Inr freshEventGroup \<Rightarrow>
                      (let freshEvents = grp_events freshEventGroup;
                           isValid = verifyFreshEvents env st blockHash freshEvents;
                           mergedEvents = c_data cachedEvents @ freshEvents
                       in ([(firstNotCachedBlock, endBlock)],
                           Inr \<lparr>grp_events = mergedEvents,
                                grp_startBlock = h_startBlock (c_headers cachedEvents),
                                grp_endBlock = endBlock,
                                grp_isValid = isValid\<rparr>))))"

text \<open>
  The \<open>for\<close> loop of \<open>updateEventsCache\<close> from \<open>block\<close> on: the state, the last indexed
  event and the count of new events are carried along; a failing fetch ends the loop
  with the error and the state reached.
\<close>

function fetchChunks ::
  "DepositEnv \<Rightarrow> DepositCacheHeaders \<Rightarrow> int \<Rightarrow> int
     \<Rightarrow> DepositRegistryState \<Rightarrow> VerifiedDepositEvent option \<Rightarrow> nat
     \<Rightarrow> error option \<times> DepositRegistryState \<times> VerifiedDepositEvent option \<times> nat" where
  "fetchChunks env initialHeaders finalizedBlockNumber block st lastIndexedEvent newEventsCount =
     (if block \<le> finalizedBlockNumber
      then (let chunkStartBlock = block;
                chunkToBlock = min finalizedBlockNumber (block + DEPOSIT_EVENTS_STEP - 1)
            in case env_fetchEventsFallOver env chunkStartBlock chunkToBlock of
                 Inl err \<Rightarrow> (Some err, st, lastIndexedEvent, newEventsCount)
               | Inr chunkEventGroup \<Rightarrow>
                   (let events = grp_events chunkEventGroup;
                        st1 = addEventGroupToIndex events st;
                        st2 = insertEventsCacheBatch
                                (initialHeaders\<lparr>h_endBlock := grp_endBlock chunkEventGroup\<rparr>)
                                events st1;
                        lastIndexedEvent' =
                          (if events = [] then lastIndexedEvent else Some (last events))
                    in fetchChunks env initialHeaders finalizedBlockNumber
                         (block + DEPOSIT_EVENTS_STEP) st2 lastIndexedEvent'
                         (newEventsCount + length events)))
      else (None, st, lastIndexedEvent, newEventsCount))"
  by pat_completeness auto
termination
  by (relation "measure (\<lambda>(env, hs, fin, block, st, li, n). nat (fin + 1 - block))")
     (auto simp: DEPOSIT_EVENTS_STEP_def)

text \<open>
  One run of \<open>updateEventsCache\<close>: the error it threw (if any), the result of the root
  comparison (if the run reached it), the event handed to \<open>insertLastValidEvent\<close> (if
  it was called), the number of new events, and the state it left.
\<close>

record UpdateRun =
  ur_threw :: "error option"
  ur_isRootValid :: "bool option"
  ur_lastValidWritten :: "VerifiedDepositEvent option"
  ur_newEventsCount :: nat
  ur_state :: DepositRegistryState

definition updateEventsCache :: "DepositEnv \<Rightarrow> DepositRegistryState \<Rightarrow> UpdateRun" where
  "updateEventsCache env st =
     (case env_finalizedBlock env of
        Inl err \<Rightarrow>
          \<lparr>ur_threw = Some err, ur_isRootValid = None, ur_lastValidWritten = None,
           ur_newEventsCount = 0, ur_state = st\<rparr>
      | Inr (finalizedBlockNumber, finalizedBlockHash) \<Rightarrow>
          (let initialCache = getCachedEvents env st;
               firstNotCachedBlock = h_endBlock (c_headers initialCache) + 1;
               isCacheValid = verifyCacheBlock initialCache finalizedBlockNumber
           in if \<not> isCacheValid
              then \<lparr>ur_threw = None, ur_isRootValid = None, ur_lastValidWritten = None,
                    ur_newEventsCount = 0, ur_state = st\<rparr>
              else (case fetchChunks env (c_headers initialCache) finalizedBlockNumber
                           firstNotCachedBlock st None 0 of
                      (Some err, st1, lastIndexedEvent, newEventsCount) \<Rightarrow>
                        \<lparr>ur_threw = Some err, ur_isRootValid = None,
                         ur_lastValidWritten = None, ur_newEventsCount = newEventsCount,
                         ur_state = st1\<rparr>
                    | (None, st1, lastIndexedEvent, newEventsCount) \<Rightarrow>
                        (let isRootValid = verifyUpdatedEvents env st1 finalizedBlockHash;
                             written = (if isRootValid then lastIndexedEvent else None);
                             st2 = (case written of
                                      Some event \<Rightarrow> insertLastValidEvent event st1
                                    | None \<Rightarrow> st1);
                             st3 = (if \<not> isRootValid
                                    then st2\<lparr>s_errorLog := s_errorLog st2
                                                @ [''Integrity check failed on block'']\<rparr>
                                    else st2)
                         in \<lparr>ur_threw = None, ur_isRootValid = Some isRootValid,
                             ur_lastValidWritten = written,
                             ur_newEventsCount = newEventsCount, ur_state = st3\<rparr>))))"

text \<open>Concrete collaborators for running the definitions.\<close>

definition mkStore :: "int \<Rightarrow> VerifiedDepositEvent list \<Rightarrow> DepositRegistryState" where
  "mkStore endBlock evs =
     \<lparr>s_store = \<lparr>c_headers = \<lparr>h_startBlock = 0, h_endBlock = endBlock\<rparr>, c_data = evs,
                 c_lastValidEvent = None\<rparr>,
      s_indexed = evs, s_errorLog = []\<rparr>"

definition mkDepositEnv :: "int \<Rightarrow> bool \<Rightarrow> DepositEnv" where
  "mkDepositEnv finalized rootOk =
     \<lparr>env_finalizedBlock = Inr (finalized, ''0xfinal''),
      env_deploymentBlock = 0,
      env_fetchEventsFallOver =
        (\<lambda>from to. Inr \<lparr>grp_events = [mkEvent to 0 ''0xff'' lidoWC0 True],
                         grp_startBlock = from, grp_endBlock = to, grp_isValid = True\<rparr>),
      env_rootMatches = (\<lambda>evs blockTag. rootOk)\<rparr>"

section \<open>Signing the deposit message\<close>

type_synonym bytes = "8 word list"

text \<open>
  The values handed to the ABI coder: byte strings (given as hex strings in the source)
  and JavaScript numbers holding integers (\<open>blockNumber\<close>, \<open>stakingModuleId\<close> and
  \<open>keysOpIndex\<close> are \<open>number\<close>s in the source).
\<close>

datatype AbiValue = BytesValue bytes | NumberValue int

text \<open>The big-endian bytes of a number at a given width, and the number they spell.\<close>

fun toBigEndian :: "nat \<Rightarrow> nat \<Rightarrow> bytes" where
  "toBigEndian 0 n = []"
| "toBigEndian (Suc width) n = toBigEndian width (n div 256) @ [of_nat (n mod 256)]"

definition fromBigEndian :: "bytes \<Rightarrow> nat" where
  "fromBigEndian bs = foldl (\<lambda>acc b. acc * 256 + unat b) 0 bs"

text \<open>
  The largest number the ethers library takes as a JavaScript number,
  \<open>0x1fffffffffffff = 2\<^sup>5\<^sup>3 - 1\<close>: from this value on (and from its negative
  down) the conversion of a number to a \<open>BigNumber\<close> throws an overflow fault.
\<close>

definition MAX_SAFE :: int where
  "MAX_SAFE = 9007199254740991"

text \<open>
  \<open>defaultAbiCoder.encode\<close> of the ethers library, for the two static types of the
  deposit message, as the contract ABI defines it: every value is one 32-byte word, a
  \<open>bytes32\<close> as it is and a \<open>uint256\<close> big-endian, and a tuple of static values is the
  concatenation of its words. A value that does not fit its type, and a list of values
  that does not match the list of types, make the coder throw. A number is first
  converted to a \<open>BigNumber\<close>, which throws an overflow fault unless the number lies
  strictly between \<open>-MAX_SAFE\<close> and \<open>MAX_SAFE\<close>; a negative number then is out of the
  bounds of \<open>uint256\<close>.
\<close>

definition encodeStatic :: "string \<Rightarrow> AbiValue \<Rightarrow> error + bytes" where
  "encodeStatic abiType v =
     (if abiType = ''bytes32''
      then (case v of
              BytesValue b \<Rightarrow> if length b = 32 then Inr b else Inl (InvalidArgument abiType)
            | NumberValue n \<Rightarrow> Inl (InvalidArgument abiType))
      else if abiType = ''uint256''
      then (case v of
              NumberValue n \<Rightarrow>
                if n \<ge> MAX_SAFE \<or> n \<le> - MAX_SAFE then Inl (NumericFault ''overflow'')
                else if n < 0 then Inl (InvalidArgument ''value out-of-bounds'')
                else Inr (toBigEndian 32 (nat n))
            | BytesValue b \<Rightarrow> Inl (InvalidArgument abiType))
      else Inl (InvalidArgument abiType))"

fun abiEncode :: "string list \<Rightarrow> AbiValue list \<Rightarrow> error + bytes" where
  "abiEncode [] [] = Inr []"
| "abiEncode (abiType # types) (v # values) =
     (case encodeStatic abiType v of
        Inl err \<Rightarrow> Inl err
      | Inr word \<Rightarrow>
          (case abiEncode types values of
             Inl err \<Rightarrow> Inl err
           | Inr rest \<Rightarrow> Inr (word @ rest)))"
| "abiEncode types values = Inl (InvalidArgument ''types/values length mismatch'')"

record SignDepositDataParams =
  sp_prefix :: bytes
  sp_blockNumber :: int
  sp_blockHash :: bytes
  sp_depositRoot :: bytes
  sp_keysOpIndex :: int
  sp_stakingModuleId :: int

text \<open>
  \<open>WalletService.signMessage\<close> and \<open>signDepositData\<close>. The hash function \<open>keccak256\<close>
  and the ECDSA signing of a digest under a private key (\<open>_signingKey().signDigest\<close>)
  belong to the ethers library and are parameters; \<open>walletKey\<close> is the private key of
  the guardian wallet.
\<close>

definition signMessage :: "('key \<Rightarrow> bytes \<Rightarrow> 'sig) \<Rightarrow> 'key \<Rightarrow> bytes \<Rightarrow> 'sig" where
  "signMessage signDigest walletKey message = signDigest walletKey message"

definition signDepositData ::
  "(bytes \<Rightarrow> bytes) \<Rightarrow> ('key \<Rightarrow> bytes \<Rightarrow> 'sig) \<Rightarrow> 'key \<Rightarrow> SignDepositDataParams
     \<Rightarrow> error + 'sig" where
  "signDepositData keccak256 signDigest walletKey params =
     (case abiEncode
             [''bytes32'', ''uint256'', ''bytes32'', ''bytes32'', ''uint256'', ''uint256'']
             [BytesValue (sp_prefix params),
              NumberValue (sp_blockNumber params),
              BytesValue (sp_blockHash params),
              BytesValue (sp_depositRoot params),
              NumberValue (sp_stakingModuleId params),
              NumberValue (sp_keysOpIndex params)] of
        Inl err \<Rightarrow> Inl err
      | Inr encodedData \<Rightarrow>
          (let messageHash = keccak256 encodedData
           in Inr (signMessage signDigest walletKey messageHash)))"

text \<open>\<open>hexZeroPad(n, 32)\<close> for a small number, as the tests build their hashes.\<close>

definition hexZeroPad32 :: "nat \<Rightarrow> bytes" where
  "hexZeroPad32 n = replicate 31 0 @ [of_nat n]"

section \<open>The guardian wallet\<close>

text \<open>
  A \<open>Wallet\<close> object: \<open>w_ref\<close> stands for the identity of the object (the number of
  wallets constructed before it), so that two wallets are the same instance exactly when
  they are equal.
\<close>

record Wallet =
  w_ref :: nat
  w_privateKey :: string
  w_address :: string

record WalletService =
  ws_privateKey :: string
  ws_cachedWallet :: "Wallet option"
  ws_constructed :: nat
  ws_warnings :: "string list"

text \<open>
  The getter \<open>wallet\<close>. \<open>validKey\<close> tells whether \<open>new Wallet(key)\<close> accepts a private
  key (it throws otherwise), \<open>addressOf\<close> is the address the library derives from a key,
  and \<open>randomKey\<close> is the private key \<open>Wallet.createRandom()\<close> would produce at this
  access. An empty string is the only falsy private key.
\<close>

definition wallet ::
  "(string \<Rightarrow> bool) \<Rightarrow> (string \<Rightarrow> string) \<Rightarrow> string \<Rightarrow> WalletService
     \<Rightarrow> (error + Wallet) \<times> WalletService" where
  "wallet validKey addressOf randomKey this =
     (case ws_cachedWallet this of
        Some cachedWallet \<Rightarrow> (Inr cachedWallet, this)
      | None \<Rightarrow>
          (let this1 =
                 (if ws_privateKey this = []
                  then this\<lparr>ws_warnings := ws_warnings this @
                              [''Private key is not provided, a random address will be generated for the test run''],
                            ws_privateKey := randomKey,
                            ws_constructed := Suc (ws_constructed this)\<rparr>
                  else this)
           in if validKey (ws_privateKey this1)
              then (let newWallet = \<lparr>w_ref = ws_constructed this1,
                                     w_privateKey = ws_privateKey this1,
                                     w_address = addressOf (ws_privateKey this1)\<rparr>
                    in (Inr newWallet,
                        this1\<lparr>ws_cachedWallet := Some newWallet,
                              ws_constructed := Suc (ws_constructed this1)\<rparr>))
              else (Inl (InvalidArgument ''privateKey''), this1)))"

text \<open>The getter \<open>address\<close>.\<close>

definition address ::
  "(string \<Rightarrow> bool) \<Rightarrow> (string \<Rightarrow> string) \<Rightarrow> string \<Rightarrow> WalletService
     \<Rightarrow> (error + string) \<times> WalletService" where
  "address validKey addressOf randomKey this =
     (case wallet validKey addressOf randomKey this of
        (Inl err, this') \<Rightarrow> (Inl err, this')
      | (Inr w, this') \<Rightarrow> (Inr (w_address w), this'))"

text \<open>
  A sequence of accesses to \<open>wallet\<close>, one for each element of the list, which gives the
  random key that access could draw.
\<close>

fun walletAccesses ::
  "(string \<Rightarrow> bool) \<Rightarrow> (string \<Rightarrow> string) \<Rightarrow> string list \<Rightarrow> WalletService
     \<Rightarrow> (error + Wallet) list" where
  "walletAccesses validKey addressOf [] this = []"
| "walletAccesses validKey addressOf (randomKey # randomKeys) this =
     (case wallet validKey addressOf randomKey this of
        (result, this') \<Rightarrow> result # walletAccesses validKey addressOf randomKeys this')"

definition newWalletService :: "string \<Rightarrow> WalletService" where
  "newWalletService privateKey =
     \<lparr>ws_privateKey = privateKey, ws_cachedWallet = None, ws_constructed = 0,
      ws_warnings = []\<rparr>"

text \<open>
  Stand-ins for the library's hash and signing functions, for running the definitions;
  the results hold for any two functions.
\<close>

definition digestStandIn :: "bytes \<Rightarrow> bytes" where
  "digestStandIn bs = rev bs"

definition signStandIn :: "string \<Rightarrow> bytes \<Rightarrow> string \<times> bytes" where
  "signStandIn walletKey digest = (walletKey, digest)"

definition validKeyStandIn :: "string \<Rightarrow> bool" where
  "validKeyStandIn k = (length k = 4)"

definition addressStandIn :: "string \<Rightarrow> string" where
  "addressStandIn k = ''0x'' @ k"

section \<open>The cache of validated deposit signatures\<close>

record SignatureValidationCacheEntry =
  ce_depositSignature :: string
  ce_wc :: string
  ce_valid :: bool

text \<open>
  Modelled from the spec: \<open>KeysValidationService.getInvalidKeys\<close>, which is not among
  the sources (only its test is). "Cache semantics: keyed by \<open>pubkey\<close>. On lookup, if
  cached \<open>(depositSignature, wc) == current\<close> the cached \<open>valid\<close> is reused; else
  revalidate and update cache. \<open>lidoWC\<close> change invalidates entries for all keys.
  Guarantee: \<open>validateKeys\<close> is called exactly with the set of keys whose
  \<open>(signature, wc)\<close> differ from cache." The verifier of the key-validation library
  answers for every key it is given; whether a deposit signature verifies depends on the
  public key, the signature and the withdrawal credentials, which is the parameter
  \<open>verify\<close>.
\<close>

text \<open>
  Modelled from the spec: the lookup. A key needs validation unless the entry cached for
  its public key has the key's signature and the current withdrawal credentials.
\<close>

definition needsValidation ::
  "(string \<rightharpoonup> SignatureValidationCacheEntry) \<Rightarrow> string \<Rightarrow> RegistryKey \<Rightarrow> bool" where
  "needsValidation cache lidoWC k =
     (case cache (rk_key k) of
        None \<Rightarrow> True
      | Some entry \<Rightarrow>
          \<not> (ce_depositSignature entry = rk_depositSignature k \<and> ce_wc entry = lidoWC))"

text \<open>
  Modelled from the spec: \<open>validateKeys\<close> of the key-validation library, the
  "underlying verifier", answering with one pair per key.
\<close>

definition validateKeys ::
  "(string \<Rightarrow> string \<Rightarrow> string \<Rightarrow> bool) \<Rightarrow> RegistryKey list \<Rightarrow> string
     \<Rightarrow> (RegistryKey \<times> bool) list" where
  "validateKeys verify keys wc =
     map (\<lambda>k. (k, verify (rk_key k) (rk_depositSignature k) wc)) keys"

text \<open>
  Modelled from the spec: the cache update after a validation ("revalidate and update
  cache"), entry by entry in the order of the validated keys.
\<close>

definition updateCache ::
  "(string \<rightharpoonup> SignatureValidationCacheEntry) \<Rightarrow> string \<Rightarrow> (RegistryKey \<times> bool) list
     \<Rightarrow> (string \<rightharpoonup> SignatureValidationCacheEntry)" where
  "updateCache cache lidoWC validatedKeys =
     foldl (\<lambda>c (k, isValid).
              c(rk_key k \<mapsto> \<lparr>ce_depositSignature = rk_depositSignature k, ce_wc = lidoWC,
                              ce_valid = isValid\<rparr>))
       cache validatedKeys"

text \<open>
  One call of \<open>getInvalidKeys\<close>: the invalid keys it returned, the list the verifier
  was invoked with, and the cache it left.
\<close>

record GetInvalidKeysRun =
  gik_invalidKeys :: "RegistryKey list"
  gik_validateKeysCalledWith :: "RegistryKey list"
  gik_cache :: "string \<rightharpoonup> SignatureValidationCacheEntry"

text \<open>
  Modelled from the spec: \<open>getInvalidKeys(keys, lidoWC)\<close>. The keys whose cache entry
  differs go to the verifier in one call; the invalid keys are the unchanged keys cached
  as invalid and the keys the verifier has just rejected.
\<close>

definition getInvalidKeys ::
  "(string \<Rightarrow> string \<Rightarrow> string \<Rightarrow> bool) \<Rightarrow> (string \<rightharpoonup> SignatureValidationCacheEntry)
     \<Rightarrow> RegistryKey list \<Rightarrow> string \<Rightarrow> GetInvalidKeysRun" where
  "getInvalidKeys verify cache keys lidoWC =
     (let keysNeedingValidation = filter (needsValidation cache lidoWC) keys;
          unchangedAndInvalidKeys =
            filter (\<lambda>k. \<not> needsValidation cache lidoWC k
                         \<and> (case cache (rk_key k) of
                               Some entry \<Rightarrow> \<not> ce_valid entry
                             | None \<Rightarrow> False))
              keys;
          validatedKeys = validateKeys verify keysNeedingValidation lidoWC;
          invalidKeysFromCurrentValidation = map fst (filter (\<lambda>(k, isValid). \<not> isValid) validatedKeys)
      in \<lparr>gik_invalidKeys = unchangedAndInvalidKeys @ invalidKeysFromCurrentValidation,
          gik_validateKeysCalledWith = keysNeedingValidation,
          gik_cache = updateCache cache lidoWC validatedKeys\<rparr>)"

text \<open>The property of a key list the results need: keys that share a public key also share
  the deposit signature.\<close>

definition sameSignaturePerPubkey :: "RegistryKey list \<Rightarrow> bool" where
  "sameSignaturePerPubkey keys =
     (\<forall>k \<in> set keys. \<forall>k' \<in> set keys.
        rk_key k = rk_key k' \<longrightarrow> rk_depositSignature k = rk_depositSignature k')"

text \<open>A verifier for running the definitions: one signature is the good one.\<close>

definition verifyStandIn :: "string \<Rightarrow> string \<Rightarrow> string \<Rightarrow> bool" where
  "verifyStandIn pk sg w = (sg = ''0xgood'')"

section \<open>One invocation at a time\<close>

text \<open>
  Modelled from the spec: the decorator \<open>@OneAtTime\<close> and the on-chain pause submission
  of the security service, neither of which is among the sources (only the test of
  \<open>pauseDepositsV2\<close> is). "\<open>@OneAtTime\<close> = a per-method atomic flag; a subsequent
  invocation while still in-flight returns immediately without side effects." The
  scheduler is cooperative and single-threaded, so an invocation runs in atomic segments
  between its suspension points: it enters (checking and raising the flag), calls the
  contract method \<open>pauseDeposits\<close>, which submits the transaction, and, once the
  transaction is no longer pending, ends and lowers the flag.
\<close>

datatype Phase = NotStarted | Entered | Pending | Done | Skipped

datatype Caller = First | Second

record PauseSubmission =
  ps_isExecuting :: bool
  ps_contractCalls :: "(int \<times> int \<times> string) list"
  ps_phase :: "Caller \<Rightarrow> Phase"

text \<open>
  Modelled from the spec: the next segment of an invocation of the guarded method.
  \<open>args\<close> gives the arguments \<open>(blockNumber, stakingModuleId, signature)\<close> of each
  invocation; \<open>ps_contractCalls\<close> lists the calls of the contract method made so far.
\<close>

definition advance ::
  "(Caller \<Rightarrow> int \<times> int \<times> string) \<Rightarrow> Caller \<Rightarrow> PauseSubmission \<Rightarrow> PauseSubmission" where
  "advance args c s =
     (case ps_phase s c of
        NotStarted \<Rightarrow>
          if ps_isExecuting s then s\<lparr>ps_phase := (ps_phase s)(c := Skipped)\<rparr>
          else s\<lparr>ps_isExecuting := True, ps_phase := (ps_phase s)(c := Entered)\<rparr>
      | Entered \<Rightarrow>
          s\<lparr>ps_contractCalls := ps_contractCalls s @ [args c],
            ps_phase := (ps_phase s)(c := Pending)\<rparr>
      | Pending \<Rightarrow> s\<lparr>ps_isExecuting := False, ps_phase := (ps_phase s)(c := Done)\<rparr>
      | Done \<Rightarrow> s
      | Skipped \<Rightarrow> s)"

text \<open>
  Modelled from the spec: the cooperative scheduler. A schedule names, segment by
  segment, the invocation that runs next.
\<close>

fun runSchedule ::
  "(Caller \<Rightarrow> int \<times> int \<times> string) \<Rightarrow> Caller list \<Rightarrow> PauseSubmission \<Rightarrow> PauseSubmission" where
  "runSchedule args [] s = s"
| "runSchedule args (c # schedule) s = runSchedule args schedule (advance args c s)"

definition idle :: PauseSubmission where
  "idle = \<lparr>ps_isExecuting = False, ps_contractCalls = [], ps_phase = (\<lambda>c. NotStarted)\<rparr>"

definition pauseArgs :: "Caller \<Rightarrow> int \<times> int \<times> string" where
  "pauseArgs c = (10, 1, ''0xsignature'')"

section \<open>Results on front-run attempts\<close>

lemma getFrontRunAttempts_filter:
  "getFrontRunAttempts smd bd =
     filter (\<lambda>k. \<exists>e \<in> set (grp_events (bd_depositedEvents bd)).
                   ev_pubkey e = rk_key k \<and> ev_wc e \<noteq> bd_lidoWC bd \<and> ev_valid e)
       (smd_vettedUnusedKeys smd)"
  unfolding getFrontRunAttempts_def getKeysIntersections_def excludeEligibleIntersections_def
    Let_def
  by (rule filter_cong) (auto simp: image_iff)

text \<open>
  Claim C2. \<open>getFrontRunAttempts\<close> returns exactly the registry keys of the module's
  \<open>vettedUnusedKeys\<close> (in their order) whose public key occurs in a deposited event
  with \<open>wc \<noteq> lidoWC\<close> and \<open>valid\<close>; and a key all of whose deposits carry the Lido
  withdrawal credentials or are invalid is never returned, so such events contribute no
  front-run key.
\<close>

theorem getFrontRunAttempts_exact:
  "getFrontRunAttempts smd bd =
     filter (\<lambda>k. \<exists>e \<in> set (grp_events (bd_depositedEvents bd)).
                   ev_pubkey e = rk_key k \<and> ev_wc e \<noteq> bd_lidoWC bd \<and> ev_valid e)
       (smd_vettedUnusedKeys smd)
   \<and> getFrontRunAttempts smd bd =
       getFrontRunAttempts smd
         (bd\<lparr>bd_depositedEvents := (bd_depositedEvents bd)
               \<lparr>grp_events := filter (\<lambda>e. \<not> (ev_wc e = bd_lidoWC bd \<or> \<not> ev_valid e))
                                (grp_events (bd_depositedEvents bd))\<rparr>\<rparr>)
   \<and> (\<forall>k. (\<forall>e \<in> set (grp_events (bd_depositedEvents bd)).
              ev_pubkey e = rk_key k \<longrightarrow> ev_wc e = bd_lidoWC bd \<or> \<not> ev_valid e)
          \<longrightarrow> k \<notin> set (getFrontRunAttempts smd bd))"
proof (intro conjI)
  show "getFrontRunAttempts smd bd =
     filter (\<lambda>k. \<exists>e \<in> set (grp_events (bd_depositedEvents bd)).
                   ev_pubkey e = rk_key k \<and> ev_wc e \<noteq> bd_lidoWC bd \<and> ev_valid e)
       (smd_vettedUnusedKeys smd)"
    by (rule getFrontRunAttempts_filter)
next
  show "getFrontRunAttempts smd bd =
       getFrontRunAttempts smd
         (bd\<lparr>bd_depositedEvents := (bd_depositedEvents bd)
               \<lparr>grp_events := filter (\<lambda>e. \<not> (ev_wc e = bd_lidoWC bd \<or> \<not> ev_valid e))
                                (grp_events (bd_depositedEvents bd))\<rparr>\<rparr>)"
    unfolding getFrontRunAttempts_filter
    by (rule filter_cong) auto
next
  show "\<forall>k. (\<forall>e \<in> set (grp_events (bd_depositedEvents bd)).
              ev_pubkey e = rk_key k \<longrightarrow> ev_wc e = bd_lidoWC bd \<or> \<not> ev_valid e)
          \<longrightarrow> k \<notin> set (getFrontRunAttempts smd bd)"
    unfolding getFrontRunAttempts_filter by auto
qed

theorem getFrontRunAttempts_exact_witness:
  "\<not> (\<exists>e \<in> set (grp_events (bd_depositedEvents
            (mkBlockData [mkEvent 5 0 ''0xaa'' attackerWC0 True, mkEvent 6 0 ''0xbb'' lidoWC0 True,
                          mkEvent 7 0 ''0xcc'' attackerWC0 False]))).
          ev_pubkey e = ''0xbb'' \<and> ev_wc e \<noteq> lidoWC0 \<and> ev_valid e)
   \<and> mkKey ''0xbb'' ''0xs2'' \<notin> set (getFrontRunAttempts
         (mkModuleData [mkKey ''0xaa'' ''0xs1'', mkKey ''0xbb'' ''0xs2'', mkKey ''0xcc'' ''0xs3''])
         (mkBlockData [mkEvent 5 0 ''0xaa'' attackerWC0 True, mkEvent 6 0 ''0xbb'' lidoWC0 True,
                       mkEvent 7 0 ''0xcc'' attackerWC0 False]))
   \<and> getFrontRunAttempts
         (mkModuleData [mkKey ''0xaa'' ''0xs1'', mkKey ''0xbb'' ''0xs2'', mkKey ''0xcc'' ''0xs3''])
         (mkBlockData [mkEvent 5 0 ''0xaa'' attackerWC0 True, mkEvent 6 0 ''0xbb'' lidoWC0 True,
                       mkEvent 7 0 ''0xcc'' attackerWC0 False])
       = [mkKey ''0xaa'' ''0xs1'']"
  using getFrontRunAttempts_exact
    [of "mkModuleData [mkKey ''0xaa'' ''0xs1'', mkKey ''0xbb'' ''0xs2'', mkKey ''0xcc'' ''0xs3'']"
        "mkBlockData [mkEvent 5 0 ''0xaa'' attackerWC0 True, mkEvent 6 0 ''0xbb'' lidoWC0 True,
                      mkEvent 7 0 ''0xcc'' attackerWC0 False]"]
  by (simp add: mkModuleData_def mkBlockData_def mkEvent_def mkKey_def lidoWC0_def
      attackerWC0_def)

section \<open>Results on the historical front-run\<close>

text \<open>
  \<open>isFirstEventEarlier\<close> is the strict lexicographic order on
  \<open>(blockNumber, logIndex)\<close>.
\<close>

lemma earlier_irrefl: "\<not> isFirstEventEarlier a a"
  by (simp add: isFirstEventEarlier_def)

lemma earlier_asym: "isFirstEventEarlier a b \<Longrightarrow> \<not> isFirstEventEarlier b a"
  by (auto simp: isFirstEventEarlier_def Let_def split: if_splits)

lemma not_earlier_trans:
  "\<not> isFirstEventEarlier a b \<Longrightarrow> \<not> isFirstEventEarlier b c \<Longrightarrow> \<not> isFirstEventEarlier a c"
  by (auto simp: isFirstEventEarlier_def Let_def split: if_splits)

lemma earlier_not_earlier_trans:
  "isFirstEventEarlier a b \<Longrightarrow> \<not> isFirstEventEarlier c b \<Longrightarrow> isFirstEventEarlier a c"
  by (auto simp: isFirstEventEarlier_def Let_def split: if_splits)

lemma foldl_rememberLidoDeposit:
  "(\<forall>p. (foldl rememberLidoDeposit Map.empty xs p = None) = (\<forall>l \<in> set xs. ev_pubkey l \<noteq> p))
   \<and> (\<forall>p l. foldl rememberLidoDeposit Map.empty xs p = Some l \<longrightarrow>
          l \<in> set xs \<and> ev_pubkey l = p
          \<and> (\<forall>l' \<in> set xs. ev_pubkey l' = p \<longrightarrow> \<not> isFirstEventEarlier l' l))"
proof (induction xs rule: rev_induct)
  case Nil
  then show ?case by simp
next
  case (snoc x xs)
  let ?m = "foldl rememberLidoDeposit Map.empty xs"
  from snoc have none: "\<And>p. (?m p = None) = (\<forall>l \<in> set xs. ev_pubkey l \<noteq> p)"
    and some: "\<And>p l. ?m p = Some l \<Longrightarrow> l \<in> set xs \<and> ev_pubkey l = p
          \<and> (\<forall>l' \<in> set xs. ev_pubkey l' = p \<longrightarrow> \<not> isFirstEventEarlier l' l)"
    by blast+
  show ?case
  proof (cases "?m (ev_pubkey x)")
    case None
    then have m': "foldl rememberLidoDeposit Map.empty (xs @ [x]) = ?m(ev_pubkey x \<mapsto> x)"
      by (simp add: rememberLidoDeposit_def)
    from None none have nox: "\<forall>l \<in> set xs. ev_pubkey l \<noteq> ev_pubkey x" by simp
    show ?thesis
      unfolding m' using none some nox
      by (auto simp: earlier_irrefl)
  next
    case (Some existed)
    note ex = some[OF Some]
    show ?thesis
    proof (cases "isFirstEventEarlier existed x")
      case True
      then have m': "foldl rememberLidoDeposit Map.empty (xs @ [x]) = ?m"
        using Some by (simp add: rememberLidoDeposit_def)
      show ?thesis
        unfolding m' using none some Some True
        by (auto dest: earlier_asym)
    next
      case False
      then have m': "foldl rememberLidoDeposit Map.empty (xs @ [x]) = ?m(ev_pubkey x \<mapsto> x)"
        using Some by (simp add: rememberLidoDeposit_def)
      have "\<forall>l' \<in> set xs. ev_pubkey l' = ev_pubkey x \<longrightarrow> \<not> isFirstEventEarlier l' x"
        using ex False not_earlier_trans by blast
      then show ?thesis
        unfolding m' using none some
        by (auto simp: earlier_irrefl)
    qed
  qed
qed


lemma foldl_remember_None:
  "(foldl rememberLidoDeposit Map.empty xs p = None) = (\<forall>l \<in> set xs. ev_pubkey l \<noteq> p)"
  using foldl_rememberLidoDeposit[of xs] by blast

lemma foldl_remember_Some:
  "foldl rememberLidoDeposit Map.empty xs p = Some l \<Longrightarrow>
     l \<in> set xs \<and> ev_pubkey l = p
     \<and> (\<forall>l' \<in> set xs. ev_pubkey l' = p \<longrightarrow> \<not> isFirstEventEarlier l' l)"
  using foldl_rememberLidoDeposit[of xs] by blast

lemma lidoMap_None:
  "(potentialLidoDepositsKeysMap bd p = None) = (\<not> (\<exists>l. isLidoDeposit bd l \<and> ev_pubkey l = p))"
  by (simp add: potentialLidoDepositsKeysMap_def isLidoDeposit_def foldl_remember_None)
     blast

lemma lidoMap_Some:
  assumes "potentialLidoDepositsKeysMap bd p = Some l"
  shows "isEarliestLidoDeposit bd l \<and> ev_pubkey l = p"
proof -
  let ?xs = "filter (\<lambda>e. ev_wc e = bd_lidoWC bd \<and> ev_valid e) (grp_events (bd_depositedEvents bd))"
  from assms have "foldl rememberLidoDeposit Map.empty ?xs p = Some l"
    by (simp add: potentialLidoDepositsKeysMap_def)
  from foldl_remember_Some[OF this]
  have 1: "l \<in> set ?xs" and 2: "ev_pubkey l = p"
    and 3: "\<forall>l' \<in> set ?xs. ev_pubkey l' = p \<longrightarrow> \<not> isFirstEventEarlier l' l"
    by blast+
  from 1 have "isLidoDeposit bd l" by (simp add: isLidoDeposit_def)
  moreover from 2 3 have "\<forall>l' \<in> set (grp_events (bd_depositedEvents bd)).
            isLidoDeposit bd l' \<and> ev_pubkey l' = ev_pubkey l \<longrightarrow> \<not> isFirstEventEarlier l' l"
    by (simp add: isLidoDeposit_def)
  ultimately show ?thesis using 2 by (simp add: isEarliestLidoDeposit_def)
qed

lemma frontRunnedFilter_Inr:
  "\<forall>e \<in> set xs. m (ev_pubkey e) \<noteq> None \<Longrightarrow>
   frontRunnedFilter m xs = Inr (filter (\<lambda>e. isFirstEventEarlier e (the (m (ev_pubkey e)))) xs)"
  by (induction xs) auto

lemma flagged_iff:
  "(potentialLidoDepositsKeysMap bd (ev_pubkey e) \<noteq> None \<and> ev_wc e \<noteq> bd_lidoWC bd \<and> ev_valid e
      \<and> e \<in> set (grp_events (bd_depositedEvents bd))
      \<and> isFirstEventEarlier e (the (potentialLidoDepositsKeysMap bd (ev_pubkey e))))
   = (precedesLidoDeposit bd e \<and> ev_valid e)"
proof
  assume a: "potentialLidoDepositsKeysMap bd (ev_pubkey e) \<noteq> None \<and> ev_wc e \<noteq> bd_lidoWC bd \<and> ev_valid e
      \<and> e \<in> set (grp_events (bd_depositedEvents bd))
      \<and> isFirstEventEarlier e (the (potentialLidoDepositsKeysMap bd (ev_pubkey e)))"
  then obtain l where l: "potentialLidoDepositsKeysMap bd (ev_pubkey e) = Some l" by auto
  from lidoMap_Some[OF l] have "isEarliestLidoDeposit bd l" "ev_pubkey l = ev_pubkey e" by auto
  moreover from this have "l \<in> set (grp_events (bd_depositedEvents bd))"
    by (simp add: isEarliestLidoDeposit_def isLidoDeposit_def)
  ultimately show "precedesLidoDeposit bd e \<and> ev_valid e"
    using a l unfolding precedesLidoDeposit_def by auto
next
  assume b: "precedesLidoDeposit bd e \<and> ev_valid e"
  then obtain l where l: "isEarliestLidoDeposit bd l" "ev_pubkey l = ev_pubkey e"
      "isFirstEventEarlier e l"
    unfolding precedesLidoDeposit_def by auto
  then have "isLidoDeposit bd l" by (simp add: isEarliestLidoDeposit_def)
  with l(2) have "potentialLidoDepositsKeysMap bd (ev_pubkey e) \<noteq> None"
    using lidoMap_None[of bd "ev_pubkey e"] by auto
  then obtain l0 where l0: "potentialLidoDepositsKeysMap bd (ev_pubkey e) = Some l0" by auto
  from lidoMap_Some[OF l0] have e0: "isEarliestLidoDeposit bd l0" "ev_pubkey l0 = ev_pubkey e"
    by auto
  then have "isLidoDeposit bd l0" by (simp add: isEarliestLidoDeposit_def)
  with l(1,2) e0(2) have "\<not> isFirstEventEarlier l0 l"
    unfolding isEarliestLidoDeposit_def isLidoDeposit_def by auto
  with l(3) have "isFirstEventEarlier e l0" by (rule earlier_not_earlier_trans)
  with b l0 show "potentialLidoDepositsKeysMap bd (ev_pubkey e) \<noteq> None \<and> ev_wc e \<noteq> bd_lidoWC bd \<and> ev_valid e
      \<and> e \<in> set (grp_events (bd_depositedEvents bd))
      \<and> isFirstEventEarlier e (the (potentialLidoDepositsKeysMap bd (ev_pubkey e)))"
    unfolding precedesLidoDeposit_def by auto
qed

lemma getHistoricalFrontRun_unfold:
  "getHistoricalFrontRun kapi bd =
     (let keys = map ev_pubkey (filter (\<lambda>e. precedesLidoDeposit bd e \<and> ev_valid e)
                        (grp_events (bd_depositedEvents bd)))
      in if keys = [] then ([], Inr False)
         else (case kapi keys of
                 Inl err \<Rightarrow> ([keys], Inl err)
               | Inr r \<Rightarrow> ([keys], Inr (klr_data r \<noteq> []))))"
proof -
  let ?m = "potentialLidoDepositsKeysMap bd"
  let ?evs = "grp_events (bd_depositedEvents bd)"
  let ?vd = "filter ev_valid (filter (\<lambda>e. ?m (ev_pubkey e) \<noteq> None \<and> ev_wc e \<noteq> bd_lidoWC bd) ?evs)"
  have "frontRunnedFilter ?m ?vd
        = Inr (filter (\<lambda>e. isFirstEventEarlier e (the (?m (ev_pubkey e)))) ?vd)"
    by (rule frontRunnedFilter_Inr) simp
  also have "filter (\<lambda>e. isFirstEventEarlier e (the (?m (ev_pubkey e)))) ?vd
        = filter (\<lambda>e. precedesLidoDeposit bd e \<and> ev_valid e) ?evs"
    unfolding filter_filter
    apply (rule filter_cong[OF refl])
    subgoal for e using flagged_iff[of bd e] by blast
    done
  finally show ?thesis
    by (simp add: getHistoricalFrontRun_def Let_def split: sum.splits)
qed


lemma flagged_nonempty_iff:
  "(filter (\<lambda>e. precedesLidoDeposit bd e \<and> ev_valid e) (grp_events (bd_depositedEvents bd)) \<noteq> [])
   = (\<exists>e. precedesLidoDeposit bd e \<and> ev_valid e)"
  by (auto simp: filter_empty_conv precedesLidoDeposit_def)

lemmas frontRun_eval_defs =
  precedesLidoDeposit_def isEarliestLidoDeposit_def isLidoDeposit_def
  isFirstEventEarlier_def mkBlockData_def mkEvent_def lidoWC0_def attackerWC0_def
  keysIndexOwningAll_def mkKey_def


text \<open>
  Claim C1, as the code has it. An event is flagged when it precedes the earliest Lido
  deposit of its key, its withdrawal credentials are not Lido's \<^emph>\<open>and its own
  signature is valid\<close>. \<open>getHistoricalFrontRun\<close> returns \<open>true\<close> exactly when some event
  is flagged and the keys-index, asked for the flagged public keys, answers with a
  non-empty \<open>data\<close>; when an event is flagged, that request is the only one sent; when
  no event is flagged it returns \<open>false\<close> and sends no request.
\<close>

theorem getHistoricalFrontRun_iff:
  "((snd (getHistoricalFrontRun kapi bd) = Inr True) =
      ((\<exists>e. precedesLidoDeposit bd e \<and> ev_valid e)
       \<and> (\<exists>r. kapi (map ev_pubkey (filter (\<lambda>e. precedesLidoDeposit bd e \<and> ev_valid e)
                                     (grp_events (bd_depositedEvents bd)))) = Inr r
              \<and> klr_data r \<noteq> [])))
   \<and> ((\<exists>e. precedesLidoDeposit bd e \<and> ev_valid e) \<longrightarrow>
         fst (getHistoricalFrontRun kapi bd) =
           [map ev_pubkey (filter (\<lambda>e. precedesLidoDeposit bd e \<and> ev_valid e)
                             (grp_events (bd_depositedEvents bd)))])
   \<and> (\<not> (\<exists>e. precedesLidoDeposit bd e \<and> ev_valid e) \<longrightarrow>
         getHistoricalFrontRun kapi bd = ([], Inr False))"
proof -
  let ?fl = "filter (\<lambda>e. precedesLidoDeposit bd e \<and> ev_valid e) (grp_events (bd_depositedEvents bd))"
  show ?thesis
  proof (cases "?fl = []")
    case True
    then have no: "\<not> (\<exists>e. precedesLidoDeposit bd e \<and> ev_valid e)"
      using flagged_nonempty_iff[of bd] by simp
    from True have "getHistoricalFrontRun kapi bd = ([], Inr False)"
      by (simp add: getHistoricalFrontRun_unfold)
    with no show ?thesis by simp
  next
    case False
    then have yes: "\<exists>e. precedesLidoDeposit bd e \<and> ev_valid e"
      using flagged_nonempty_iff[of bd] by simp
    from False have "getHistoricalFrontRun kapi bd =
        (case kapi (map ev_pubkey ?fl) of
           Inl err \<Rightarrow> ([map ev_pubkey ?fl], Inl err)
         | Inr r \<Rightarrow> ([map ev_pubkey ?fl], Inr (klr_data r \<noteq> [])))"
      by (simp add: getHistoricalFrontRun_unfold Let_def)
    with yes show ?thesis
      by (cases "kapi (map ev_pubkey ?fl)") simp_all
  qed
qed

theorem getHistoricalFrontRun_iff_witness:
  "precedesLidoDeposit
      (mkBlockData [mkEvent 9 0 ''0xaa'' attackerWC0 True, mkEvent 10 0 ''0xaa'' lidoWC0 True])
      (mkEvent 9 0 ''0xaa'' attackerWC0 True)
   \<and> ev_valid (mkEvent 9 0 ''0xaa'' attackerWC0 True)
   \<and> fst (getHistoricalFrontRun keysIndexOwningAll
        (mkBlockData [mkEvent 9 0 ''0xaa'' attackerWC0 True, mkEvent 10 0 ''0xaa'' lidoWC0 True]))
      = [[''0xaa'']]
   \<and> snd (getHistoricalFrontRun keysIndexOwningAll
        (mkBlockData [mkEvent 9 0 ''0xaa'' attackerWC0 True, mkEvent 10 0 ''0xaa'' lidoWC0 True]))
      = Inr True
   \<and> getHistoricalFrontRun keysIndexOwningAll
        (mkBlockData [mkEvent 10 0 ''0xaa'' lidoWC0 True, mkEvent 10 1 ''0xaa'' attackerWC0 True])
      = ([], Inr False)"
proof -
  let ?eA = "mkEvent 9 0 ''0xaa'' attackerWC0 True"
  let ?bdA = "mkBlockData [?eA, mkEvent 10 0 ''0xaa'' lidoWC0 True]"
  let ?bdB = "mkBlockData [mkEvent 10 0 ''0xaa'' lidoWC0 True, mkEvent 10 1 ''0xaa'' attackerWC0 True]"
  have pA: "precedesLidoDeposit ?bdA ?eA \<and> ev_valid ?eA"
    by (simp add: frontRun_eval_defs)
  then have exA: "\<exists>e. precedesLidoDeposit ?bdA e \<and> ev_valid e" by blast
  have flA: "map ev_pubkey (filter (\<lambda>e. precedesLidoDeposit ?bdA e \<and> ev_valid e)
               (grp_events (bd_depositedEvents ?bdA))) = [''0xaa'']"
    by (simp add: frontRun_eval_defs)
  have kA: "\<exists>r. keysIndexOwningAll [''0xaa''] = Inr r \<and> klr_data r \<noteq> []"
    by (simp add: keysIndexOwningAll_def)
  have rA: "fst (getHistoricalFrontRun keysIndexOwningAll ?bdA) = [[''0xaa'']]
            \<and> snd (getHistoricalFrontRun keysIndexOwningAll ?bdA) = Inr True"
    using getHistoricalFrontRun_iff[of keysIndexOwningAll ?bdA] exA kA unfolding flA by blast
  have flB: "filter (\<lambda>e. precedesLidoDeposit ?bdB e \<and> ev_valid e)
               (grp_events (bd_depositedEvents ?bdB)) = []"
    by (simp add: frontRun_eval_defs)
  have noB: "\<not> (\<exists>e. precedesLidoDeposit ?bdB e \<and> ev_valid e)"
    using flagged_nonempty_iff[of ?bdB] flB by blast
  have rB: "getHistoricalFrontRun keysIndexOwningAll ?bdB = ([], Inr False)"
    using getHistoricalFrontRun_iff[of keysIndexOwningAll ?bdB] noB by blast
  from pA rA rB show ?thesis by blast
qed

text \<open>
  The claim as written does not ask the earlier deposit to be valid. A deposit with
  foreign withdrawal credentials and an invalid signature, one block before the Lido
  deposit of the same key, satisfies its condition, and the keys-index owns the key;
  the code drops the deposit in \<open>validDuplicatedDepositEvents\<close>, sends no request and
  returns \<open>false\<close>.
\<close>

theorem getHistoricalFrontRun_invalid_deposit_counterexample:
  "precedesLidoDeposit
      (mkBlockData [mkEvent 9 0 ''0xaa'' attackerWC0 False, mkEvent 10 0 ''0xaa'' lidoWC0 True])
      (mkEvent 9 0 ''0xaa'' attackerWC0 False)
   \<and> map rk_key (klr_data (projr (keysIndexOwningAll [''0xaa'']))) = [''0xaa'']
   \<and> getHistoricalFrontRun keysIndexOwningAll
        (mkBlockData [mkEvent 9 0 ''0xaa'' attackerWC0 False, mkEvent 10 0 ''0xaa'' lidoWC0 True])
      = ([], Inr False)"
  by (simp add: precedesLidoDeposit_def isEarliestLidoDeposit_def isLidoDeposit_def
      isFirstEventEarlier_def mkBlockData_def mkEvent_def lidoWC0_def attackerWC0_def
      keysIndexOwningAll_def mkKey_def getHistoricalFrontRun_def potentialLidoDepositsKeysMap_def
      rememberLidoDeposit_def)



section \<open>Results on the re-signing gate\<close>

lemma isSameContractsStates_iff:
  "isSameContractsStates R firstState secondState =
     (\<exists>f s. firstState = Some f \<and> secondState = Some s
        \<and> cs_depositRoot f = cs_depositRoot s
        \<and> cs_lastChangedBlockHash f = cs_lastChangedBlockHash s
        \<and> cs_blockNumber f div R = cs_blockNumber s div R)"
  by (auto simp: isSameContractsStates_def split: option.splits)

lemma handleCorrectKeys_state:
  "snd (handleCorrectKeys R sign smd bd lastStates) =
     lastStates(smd_stakingModuleId smd \<mapsto>
       \<lparr>cs_nonce = smd_nonce smd, cs_depositRoot = bd_depositRoot bd,
        cs_blockNumber = bd_blockNumber bd,
        cs_lastChangedBlockHash = smd_lastChangedBlockHash smd\<rparr>)"
  by (simp add: handleCorrectKeys_def Let_def split: sum.splits)

lemma handleCorrectKeys_outcome:
  "fst (handleCorrectKeys R sign smd bd lastStates) =
     (if isSameContractsStates R
           (Some \<lparr>cs_nonce = smd_nonce smd, cs_depositRoot = bd_depositRoot bd,
                  cs_blockNumber = bd_blockNumber bd,
                  cs_lastChangedBlockHash = smd_lastChangedBlockHash smd\<rparr>)
           (lastStates (smd_stakingModuleId smd))
      then StateDidNotChange
      else (case sign (bd_depositRoot bd) (smd_nonce smd) (bd_blockNumber bd) (bd_blockHash bd)
                   (smd_stakingModuleId smd) of
              Inl err \<Rightarrow> SigningFailed err
            | Inr sg \<Rightarrow>
                DepositMessageSent
                  \<lparr>dm_depositRoot = bd_depositRoot bd, dm_nonce = smd_nonce smd,
                   dm_blockNumber = bd_blockNumber bd, dm_blockHash = bd_blockHash bd,
                   dm_guardianAddress = bd_guardianAddress bd,
                   dm_guardianIndex = bd_guardianIndex bd,
                   dm_signature = sg, dm_stakingModuleId = smd_stakingModuleId smd\<rparr>))"
  by (simp add: handleCorrectKeys_def Let_def split: sum.splits)

text \<open>
  Claim C4, as the code has it. For a positive \<open>GUARDIAN_DEPOSIT_RESIGNING_BLOCKS\<close>,
  \<open>isSameContractsStates\<close> is true exactly when both states are present, their deposit
  roots are equal, their \<open>lastChangedBlockHash\<close> are equal and their block numbers fall
  in the same re-signing window. Consequently, when two consecutive calls of
  \<open>handleCorrectKeys\<close> for one module see the same deposit root, nonce and
  \<open>lastChangedBlockHash\<close> in the same window, the second call returns before signing
  and sends nothing. The first call sends a deposit message exactly when the state
  recorded for the module before it is not the same state (none is recorded when the
  service starts) and \<open>signDepositData\<close>, called with the deposit root, the nonce, the
  block number, the block hash and the module id, returns a signature; the message
  then carries that signature and the fields of the block and of the module. When the
  signer throws, nothing is sent. In every case the call records the state it saw.
\<close>

theorem isSameContractsStates_gating:
  assumes "0 < R"
  shows "(isSameContractsStates R firstState secondState =
           (\<exists>f s. firstState = Some f \<and> secondState = Some s
              \<and> cs_depositRoot f = cs_depositRoot s
              \<and> cs_lastChangedBlockHash f = cs_lastChangedBlockHash s
              \<and> cs_blockNumber f div R = cs_blockNumber s div R))
    \<and> (smd_stakingModuleId smd2 = smd_stakingModuleId smd1
        \<and> bd_depositRoot bd2 = bd_depositRoot bd1
        \<and> smd_nonce smd2 = smd_nonce smd1
        \<and> smd_lastChangedBlockHash smd2 = smd_lastChangedBlockHash smd1
        \<and> bd_blockNumber bd2 div R = bd_blockNumber bd1 div R
        \<longrightarrow> fst (handleCorrectKeys R sign smd2 bd2
                   (snd (handleCorrectKeys R sign smd1 bd1 lastStates)))
              = StateDidNotChange)
    \<and> ((\<exists>m. fst (handleCorrectKeys R sign smd1 bd1 lastStates) = DepositMessageSent m)
          = (\<not> isSameContractsStates R
                  (Some \<lparr>cs_nonce = smd_nonce smd1, cs_depositRoot = bd_depositRoot bd1,
                         cs_blockNumber = bd_blockNumber bd1,
                         cs_lastChangedBlockHash = smd_lastChangedBlockHash smd1\<rparr>)
                  (lastStates (smd_stakingModuleId smd1))
             \<and> (\<exists>sg. sign (bd_depositRoot bd1) (smd_nonce smd1) (bd_blockNumber bd1)
                        (bd_blockHash bd1) (smd_stakingModuleId smd1) = Inr sg)))
    \<and> (\<forall>sg. \<not> isSameContractsStates R
                  (Some \<lparr>cs_nonce = smd_nonce smd1, cs_depositRoot = bd_depositRoot bd1,
                         cs_blockNumber = bd_blockNumber bd1,
                         cs_lastChangedBlockHash = smd_lastChangedBlockHash smd1\<rparr>)
                  (lastStates (smd_stakingModuleId smd1))
              \<and> sign (bd_depositRoot bd1) (smd_nonce smd1) (bd_blockNumber bd1)
                    (bd_blockHash bd1) (smd_stakingModuleId smd1) = Inr sg
          \<longrightarrow> fst (handleCorrectKeys R sign smd1 bd1 lastStates) =
                DepositMessageSent
                  \<lparr>dm_depositRoot = bd_depositRoot bd1, dm_nonce = smd_nonce smd1,
                   dm_blockNumber = bd_blockNumber bd1, dm_blockHash = bd_blockHash bd1,
                   dm_guardianAddress = bd_guardianAddress bd1,
                   dm_guardianIndex = bd_guardianIndex bd1,
                   dm_signature = sg, dm_stakingModuleId = smd_stakingModuleId smd1\<rparr>)
    \<and> (\<forall>err. \<not> isSameContractsStates R
                  (Some \<lparr>cs_nonce = smd_nonce smd1, cs_depositRoot = bd_depositRoot bd1,
                         cs_blockNumber = bd_blockNumber bd1,
                         cs_lastChangedBlockHash = smd_lastChangedBlockHash smd1\<rparr>)
                  (lastStates (smd_stakingModuleId smd1))
              \<and> sign (bd_depositRoot bd1) (smd_nonce smd1) (bd_blockNumber bd1)
                    (bd_blockHash bd1) (smd_stakingModuleId smd1) = Inl err
          \<longrightarrow> fst (handleCorrectKeys R sign smd1 bd1 lastStates) = SigningFailed err)
    \<and> snd (handleCorrectKeys R sign smd1 bd1 lastStates) =
          lastStates(smd_stakingModuleId smd1 \<mapsto>
            \<lparr>cs_nonce = smd_nonce smd1, cs_depositRoot = bd_depositRoot bd1,
             cs_blockNumber = bd_blockNumber bd1,
             cs_lastChangedBlockHash = smd_lastChangedBlockHash smd1\<rparr>)"
proof (intro conjI allI impI)
  show "isSameContractsStates R firstState secondState =
           (\<exists>f s. firstState = Some f \<and> secondState = Some s
              \<and> cs_depositRoot f = cs_depositRoot s
              \<and> cs_lastChangedBlockHash f = cs_lastChangedBlockHash s
              \<and> cs_blockNumber f div R = cs_blockNumber s div R)"
    by (rule isSameContractsStates_iff)
next
  assume h: "smd_stakingModuleId smd2 = smd_stakingModuleId smd1
        \<and> bd_depositRoot bd2 = bd_depositRoot bd1
        \<and> smd_nonce smd2 = smd_nonce smd1
        \<and> smd_lastChangedBlockHash smd2 = smd_lastChangedBlockHash smd1
        \<and> bd_blockNumber bd2 div R = bd_blockNumber bd1 div R"
  then show "fst (handleCorrectKeys R sign smd2 bd2
                   (snd (handleCorrectKeys R sign smd1 bd1 lastStates)))
              = StateDidNotChange"
    unfolding handleCorrectKeys_outcome handleCorrectKeys_state
    by (simp add: isSameContractsStates_iff)
next
  show "(\<exists>m. fst (handleCorrectKeys R sign smd1 bd1 lastStates) = DepositMessageSent m)
          = (\<not> isSameContractsStates R
                  (Some \<lparr>cs_nonce = smd_nonce smd1, cs_depositRoot = bd_depositRoot bd1,
                         cs_blockNumber = bd_blockNumber bd1,
                         cs_lastChangedBlockHash = smd_lastChangedBlockHash smd1\<rparr>)
                  (lastStates (smd_stakingModuleId smd1))
             \<and> (\<exists>sg. sign (bd_depositRoot bd1) (smd_nonce smd1) (bd_blockNumber bd1)
                        (bd_blockHash bd1) (smd_stakingModuleId smd1) = Inr sg))"
    unfolding handleCorrectKeys_outcome by (auto split: sum.splits)
next
  fix sg
  assume "\<not> isSameContractsStates R
                  (Some \<lparr>cs_nonce = smd_nonce smd1, cs_depositRoot = bd_depositRoot bd1,
                         cs_blockNumber = bd_blockNumber bd1,
                         cs_lastChangedBlockHash = smd_lastChangedBlockHash smd1\<rparr>)
                  (lastStates (smd_stakingModuleId smd1))
              \<and> sign (bd_depositRoot bd1) (smd_nonce smd1) (bd_blockNumber bd1)
                    (bd_blockHash bd1) (smd_stakingModuleId smd1) = Inr sg"
  then show "fst (handleCorrectKeys R sign smd1 bd1 lastStates) =
                DepositMessageSent
                  \<lparr>dm_depositRoot = bd_depositRoot bd1, dm_nonce = smd_nonce smd1,
                   dm_blockNumber = bd_blockNumber bd1, dm_blockHash = bd_blockHash bd1,
                   dm_guardianAddress = bd_guardianAddress bd1,
                   dm_guardianIndex = bd_guardianIndex bd1,
                   dm_signature = sg, dm_stakingModuleId = smd_stakingModuleId smd1\<rparr>"
    unfolding handleCorrectKeys_outcome by simp
next
  fix err
  assume "\<not> isSameContractsStates R
                  (Some \<lparr>cs_nonce = smd_nonce smd1, cs_depositRoot = bd_depositRoot bd1,
                         cs_blockNumber = bd_blockNumber bd1,
                         cs_lastChangedBlockHash = smd_lastChangedBlockHash smd1\<rparr>)
                  (lastStates (smd_stakingModuleId smd1))
              \<and> sign (bd_depositRoot bd1) (smd_nonce smd1) (bd_blockNumber bd1)
                    (bd_blockHash bd1) (smd_stakingModuleId smd1) = Inl err"
  then show "fst (handleCorrectKeys R sign smd1 bd1 lastStates) = SigningFailed err"
    unfolding handleCorrectKeys_outcome by simp
next
  show "snd (handleCorrectKeys R sign smd1 bd1 lastStates) =
          lastStates(smd_stakingModuleId smd1 \<mapsto>
            \<lparr>cs_nonce = smd_nonce smd1, cs_depositRoot = bd_depositRoot bd1,
             cs_blockNumber = bd_blockNumber bd1,
             cs_lastChangedBlockHash = smd_lastChangedBlockHash smd1\<rparr>)"
    by (rule handleCorrectKeys_state)
qed

theorem isSameContractsStates_gating_witness:
  "(0::int) < 10
   \<and> 105 div (10::int) = 100 div 10
   \<and> signDepositData0 ''0xroot'' 7 100 ''0xb100'' 1 = Inr ''sig:0xroot:0xb100''
   \<and> \<not> isSameContractsStates 10
         (Some \<lparr>cs_nonce = 7, cs_depositRoot = ''0xroot'', cs_blockNumber = 100,
                cs_lastChangedBlockHash = ''0xlast''\<rparr>)
         (Map.empty (1::int))
   \<and> fst (handleCorrectKeys 10 signDepositData0 (mkModuleData [])
            ((mkBlockData [])\<lparr>bd_blockNumber := 105\<rparr>)
            (snd (handleCorrectKeys 10 signDepositData0 (mkModuleData []) (mkBlockData [])
                    Map.empty)))
       = StateDidNotChange
   \<and> fst (handleCorrectKeys 10 signDepositData0 (mkModuleData []) (mkBlockData []) Map.empty)
       = DepositMessageSent
           \<lparr>dm_depositRoot = ''0xroot'', dm_nonce = 7, dm_blockNumber = 100,
            dm_blockHash = ''0xb100'', dm_guardianAddress = ''0xguardian'',
            dm_guardianIndex = 0, dm_signature = ''sig:0xroot:0xb100'',
            dm_stakingModuleId = 1\<rparr>"
proof -
  let ?smd = "mkModuleData []"
  let ?bd1 = "mkBlockData []"
  let ?bd2 = "(mkBlockData [])\<lparr>bd_blockNumber := 105\<rparr>"
  have pos: "(0::int) < 10" by simp
  note t = isSameContractsStates_gating[OF pos, where ?smd1.0 = ?smd and ?smd2.0 = ?smd
      and ?bd1.0 = ?bd1 and ?bd2.0 = ?bd2 and sign = signDepositData0
      and lastStates = Map.empty and firstState = None and secondState = None]
  have sg: "signDepositData0 ''0xroot'' 7 100 ''0xb100'' 1 = Inr ''sig:0xroot:0xb100''"
    by (simp add: signDepositData0_def)
  have ns: "\<not> isSameContractsStates 10
         (Some \<lparr>cs_nonce = 7, cs_depositRoot = ''0xroot'', cs_blockNumber = 100,
                cs_lastChangedBlockHash = ''0xlast''\<rparr>)
         (Map.empty (1::int))"
    by (simp add: isSameContractsStates_def)
  have h: "smd_stakingModuleId ?smd = smd_stakingModuleId ?smd
        \<and> bd_depositRoot ?bd2 = bd_depositRoot ?bd1
        \<and> smd_nonce ?smd = smd_nonce ?smd
        \<and> smd_lastChangedBlockHash ?smd = smd_lastChangedBlockHash ?smd
        \<and> bd_blockNumber ?bd2 div 10 = bd_blockNumber ?bd1 div 10"
    by (simp add: mkBlockData_def)
  have second: "fst (handleCorrectKeys 10 signDepositData0 ?smd ?bd2
                  (snd (handleCorrectKeys 10 signDepositData0 ?smd ?bd1 Map.empty)))
                = StateDidNotChange"
    using t h by blast
  have sg': "signDepositData0 (bd_depositRoot ?bd1) (smd_nonce ?smd) (bd_blockNumber ?bd1)
               (bd_blockHash ?bd1) (smd_stakingModuleId ?smd) = Inr ''sig:0xroot:0xb100''"
    by (simp add: signDepositData0_def mkBlockData_def)
  have ns': "\<not> isSameContractsStates 10
         (Some \<lparr>cs_nonce = smd_nonce ?smd, cs_depositRoot = bd_depositRoot ?bd1,
                cs_blockNumber = bd_blockNumber ?bd1,
                cs_lastChangedBlockHash = smd_lastChangedBlockHash ?smd\<rparr>)
         (Map.empty (smd_stakingModuleId ?smd))"
    by (simp add: isSameContractsStates_def)
  have first: "fst (handleCorrectKeys 10 signDepositData0 ?smd ?bd1 Map.empty) =
                DepositMessageSent
                  \<lparr>dm_depositRoot = bd_depositRoot ?bd1, dm_nonce = smd_nonce ?smd,
                   dm_blockNumber = bd_blockNumber ?bd1, dm_blockHash = bd_blockHash ?bd1,
                   dm_guardianAddress = bd_guardianAddress ?bd1,
                   dm_guardianIndex = bd_guardianIndex ?bd1,
                   dm_signature = ''sig:0xroot:0xb100'',
                   dm_stakingModuleId = smd_stakingModuleId ?smd\<rparr>"
    using t ns' sg' by blast
  from first have first': "fst (handleCorrectKeys 10 signDepositData0 ?smd ?bd1 Map.empty) =
       DepositMessageSent
           \<lparr>dm_depositRoot = ''0xroot'', dm_nonce = 7, dm_blockNumber = 100,
            dm_blockHash = ''0xb100'', dm_guardianAddress = ''0xguardian'',
            dm_guardianIndex = 0, dm_signature = ''sig:0xroot:0xb100'',
            dm_stakingModuleId = 1\<rparr>"
    by (simp add: mkModuleData_def mkBlockData_def)
  from sg ns second first' show ?thesis by simp
qed

text \<open>
  The claim as written has the first of two such ticks sign and publish in every case.
  It does not when the tick before it already recorded the same state: of three ticks
  that see one state, the second and the third are consecutive and identical, and
  neither sends. Nor does it when the signer throws: the state is recorded before the
  signer is called, so the first tick sends nothing and the second finds the state
  unchanged.
\<close>

theorem handleCorrectKeys_first_tick_counterexample:
  "fst (handleCorrectKeys 10 signDepositData0 (mkModuleData []) (mkBlockData [])
          (snd (handleCorrectKeys 10 signDepositData0 (mkModuleData []) (mkBlockData [])
                  Map.empty)))
     = StateDidNotChange
   \<and> fst (handleCorrectKeys 10 signDepositData0 (mkModuleData []) (mkBlockData [])
          (snd (handleCorrectKeys 10 signDepositData0 (mkModuleData []) (mkBlockData [])
                  (snd (handleCorrectKeys 10 signDepositData0 (mkModuleData [])
                          (mkBlockData []) Map.empty)))))
     = StateDidNotChange
   \<and> fst (handleCorrectKeys 10 signDepositDataFailing (mkModuleData []) (mkBlockData [])
          Map.empty)
     = SigningFailed (RequestError ''getAttestMessagePrefix'')
   \<and> fst (handleCorrectKeys 10 signDepositDataFailing (mkModuleData []) (mkBlockData [])
          (snd (handleCorrectKeys 10 signDepositDataFailing (mkModuleData []) (mkBlockData [])
                  Map.empty)))
     = StateDidNotChange"
  by (simp add: handleCorrectKeys_outcome handleCorrectKeys_state isSameContractsStates_def
      mkModuleData_def mkBlockData_def signDepositDataFailing_def)

section \<open>Results on the consistency check\<close>

text \<open>
  \<open>getKeys\<close> answers from the cache when the cached hash is the current one, and
  otherwise goes through \<open>updateCachedKeys\<close> and its consistency check.
\<close>

lemma getKeys_cases:
  "getKeys fetchKeys cachedKeys snapshot =
     (case cachedKeys of
        Some cached \<Rightarrow>
          if el_lastChangedBlockHash (klr_meta cached) = el_lastChangedBlockHash snapshot
          then (Inr cached, cachedKeys)
          else updateCachedKeys fetchKeys cachedKeys snapshot
      | None \<Rightarrow> updateCachedKeys fetchKeys cachedKeys snapshot)"
  by (simp add: getKeys_def Let_def split: option.splits)

text \<open>
  Claim C3. Both consistency checks throw \<open>InconsistentLastChangedBlockHash\<close> exactly
  when the two hashes differ and raise nothing when they are equal. In a tick that
  reaches the check (operators fetched, contracts initialised, new state to process,
  keys fetched): if the hash of the operators request differs from the hash of the keys
  request, the tick ends with that error logged, no message sent and the processed state
  not advanced; if they are equal the tick proceeds, and its messages and its outcome
  are those of the rest of the cycle. Inside \<open>KeysApiService\<close>, freshly fetched keys
  with a different hash are rejected with the same error and leave the cache as it was.
\<close>

theorem inconsistent_hash_aborts_tick:
  "(isEqualLastChangedBlockHash h1 h2 =
      (if h1 = h2 then Inr () else Inl InconsistentLastChangedBlockHash))
   \<and> (verifyMetaDataConsistency h1 h2 =
      (if h1 = h2 then Inr () else Inl InconsistentLastChangedBlockHash))
   \<and> (te_getOperatorListWithModule env = Inr (ops, meta)
        \<and> te_initCachedContracts env (el_blockHash meta) = Inr ()
        \<and> te_isNeedToProcessNewState env (el_blockHash meta) (el_blockNumber meta)
        \<and> te_getKeys env = Inr keysResponse
        \<longrightarrow>
        (el_lastChangedBlockHash meta \<noteq> el_lastChangedBlockHash (klr_meta keysResponse)
           \<longrightarrow> handleNewBlock env =
                 \<lparr>tr_messages = [], tr_loggedError = Some InconsistentLastChangedBlockHash,
                  tr_stateProcessed = False\<rparr>)
        \<and> (el_lastChangedBlockHash meta = el_lastChangedBlockHash (klr_meta keysResponse)
           \<longrightarrow> tr_messages (handleNewBlock env)
                   = fst (te_processState env ops meta (klr_data keysResponse))
               \<and> tr_loggedError (handleNewBlock env)
                   = snd (te_processState env ops meta (klr_data keysResponse))))
   \<and> (fetchKeys = Inr result
        \<and> el_lastChangedBlockHash snapshot \<noteq> el_lastChangedBlockHash (klr_meta result)
        \<longrightarrow> updateCachedKeys fetchKeys cachedKeys snapshot
              = (Inl InconsistentLastChangedBlockHash, cachedKeys))"
  by (auto simp: isEqualLastChangedBlockHash_def verifyMetaDataConsistency_def
      handleNewBlock_def tickFailed_def updateCachedKeys_def split: prod.splits)

theorem inconsistent_hash_aborts_tick_witness:
  "te_getOperatorListWithModule (mkTickEnv ''0xH1'' ''0xH2'') = Inr ((), mkSnapshot ''0xH1'')
   \<and> el_lastChangedBlockHash (mkSnapshot ''0xH1'') \<noteq> el_lastChangedBlockHash (mkSnapshot ''0xH2'')
   \<and> isEqualLastChangedBlockHash ''0xH1'' ''0xH2'' = Inl InconsistentLastChangedBlockHash
   \<and> isEqualLastChangedBlockHash ''0xH1'' ''0xH1'' = Inr ()
   \<and> handleNewBlock (mkTickEnv ''0xH1'' ''0xH2'') =
        \<lparr>tr_messages = [], tr_loggedError = Some InconsistentLastChangedBlockHash,
         tr_stateProcessed = False\<rparr>
   \<and> tr_messages (handleNewBlock (mkTickEnv ''0xH1'' ''0xH1'')) = [Ping [1]]
   \<and> tr_loggedError (handleNewBlock (mkTickEnv ''0xH1'' ''0xH1'')) = None
   \<and> updateCachedKeys
        (Inr \<lparr>klr_data = [mkKey ''0xaa'' ''0xs1''], klr_meta = mkSnapshot ''0xH2''\<rparr>)
        None (mkSnapshot ''0xH1'')
      = (Inl InconsistentLastChangedBlockHash, None)"
proof -
  let ?resp = "\<lambda>h. \<lparr>klr_data = [mkKey ''0xaa'' ''0xs1''], klr_meta = mkSnapshot h\<rparr>"
  have pre: "\<And>h1 h2. te_getOperatorListWithModule (mkTickEnv h1 h2) = Inr ((), mkSnapshot h1)
        \<and> te_initCachedContracts (mkTickEnv h1 h2) (el_blockHash (mkSnapshot h1)) = Inr ()
        \<and> te_isNeedToProcessNewState (mkTickEnv h1 h2) (el_blockHash (mkSnapshot h1))
             (el_blockNumber (mkSnapshot h1))
        \<and> te_getKeys (mkTickEnv h1 h2) = Inr (?resp h2)"
    by (simp add: mkTickEnv_def)
  have ne: "el_lastChangedBlockHash (mkSnapshot ''0xH1'')
              \<noteq> el_lastChangedBlockHash (klr_meta (?resp ''0xH2''))"
    by (simp add: mkSnapshot_def)
  have eq: "el_lastChangedBlockHash (mkSnapshot ''0xH1'')
              = el_lastChangedBlockHash (klr_meta (?resp ''0xH1''))"
    by (simp add: mkSnapshot_def)
  have a: "handleNewBlock (mkTickEnv ''0xH1'' ''0xH2'') =
        \<lparr>tr_messages = [], tr_loggedError = Some InconsistentLastChangedBlockHash,
         tr_stateProcessed = False\<rparr>"
    using inconsistent_hash_aborts_tick
      [of "''0xH1''" "''0xH2''" "mkTickEnv ''0xH1'' ''0xH2''" "()" "mkSnapshot ''0xH1''"
          "?resp ''0xH2''"] pre[of "''0xH1''" "''0xH2''"] ne
    by blast
  have b: "tr_messages (handleNewBlock (mkTickEnv ''0xH1'' ''0xH1''))
             = fst (te_processState (mkTickEnv ''0xH1'' ''0xH1'') () (mkSnapshot ''0xH1'')
                      (klr_data (?resp ''0xH1'')))
           \<and> tr_loggedError (handleNewBlock (mkTickEnv ''0xH1'' ''0xH1''))
             = snd (te_processState (mkTickEnv ''0xH1'' ''0xH1'') () (mkSnapshot ''0xH1'')
                      (klr_data (?resp ''0xH1'')))"
    using inconsistent_hash_aborts_tick
      [of "''0xH1''" "''0xH1''" "mkTickEnv ''0xH1'' ''0xH1''" "()" "mkSnapshot ''0xH1''"
          "?resp ''0xH1''"] pre[of "''0xH1''" "''0xH1''"] eq
    by blast
  have c: "isEqualLastChangedBlockHash ''0xH1'' ''0xH2'' = Inl InconsistentLastChangedBlockHash"
    using inconsistent_hash_aborts_tick
      [of "''0xH1''" "''0xH2''" "mkTickEnv ''0xH1'' ''0xH2''" "()" "mkSnapshot ''0xH1''"
          "?resp ''0xH2''"]
    by simp
  have d: "isEqualLastChangedBlockHash ''0xH1'' ''0xH1'' = Inr ()"
    by (simp add: isEqualLastChangedBlockHash_def)
  have e: "updateCachedKeys (Inr (?resp ''0xH2'')) None (mkSnapshot ''0xH1'')
      = (Inl InconsistentLastChangedBlockHash, None)"
    using inconsistent_hash_aborts_tick
      [of "''0xH1''" "''0xH2''" "mkTickEnv ''0xH1'' ''0xH2''" "()" "mkSnapshot ''0xH1''"
          "?resp ''0xH2''" "Inr (?resp ''0xH2'')" "?resp ''0xH2''" "mkSnapshot ''0xH1''" None] ne
    by blast
  from b have b': "tr_messages (handleNewBlock (mkTickEnv ''0xH1'' ''0xH1'')) = [Ping [1]]
                   \<and> tr_loggedError (handleNewBlock (mkTickEnv ''0xH1'' ''0xH1'')) = None"
    by (simp add: mkTickEnv_def)
  from pre[of "''0xH1''" "''0xH2''"] ne a b' c d e show ?thesis
    by (simp add: mkSnapshot_def)
qed

section \<open>Results on the deposit events cache\<close>

text \<open>
  The loop only extends the index of the sanity checker; it leaves \<open>lastValidEvent\<close> and
  the error log alone, and the event it remembers is the last one it indexed.
\<close>

declare fetchChunks.simps [simp del]

lemma fetchChunks_inv:
  "fetchChunks env hs fin b st li n = (err, st', li', n') \<Longrightarrow>
     \<exists>new. s_indexed st' = s_indexed st @ new
        \<and> n' = n + length new
        \<and> li' = (if new = [] then li else Some (last new))
        \<and> c_lastValidEvent (s_store st') = c_lastValidEvent (s_store st)
        \<and> s_errorLog st' = s_errorLog st"
proof (induction env hs fin b st li n rule: fetchChunks.induct)
  case (1 env hs fin block st li n)
  show ?case
  proof (cases "block \<le> fin")
    case False
    with "1.prems" have "st' = st" "li' = li" "n' = n"
      by (simp_all add: fetchChunks.simps[of env hs fin block])
    then show ?thesis by simp
  next
    case True
    let ?to = "min fin (block + DEPOSIT_EVENTS_STEP - 1)"
    show ?thesis
    proof (cases "env_fetchEventsFallOver env block ?to")
      case (Inl e)
      with True "1.prems" have "st' = st" "li' = li" "n' = n"
        by (simp_all add: fetchChunks.simps[of env hs fin block] Let_def)
      then show ?thesis by simp
    next
      case (Inr grp)
      let ?evs = "grp_events grp"
      let ?st1 = "addEventGroupToIndex ?evs st"
      let ?st2 = "insertEventsCacheBatch (hs\<lparr>h_endBlock := grp_endBlock grp\<rparr>) ?evs ?st1"
      let ?li = "if ?evs = [] then li else Some (last ?evs)"
      from True Inr "1.prems"
      have rec: "fetchChunks env hs fin (block + DEPOSIT_EVENTS_STEP) ?st2 ?li (n + length ?evs)
                 = (err, st', li', n')"
        by (simp add: fetchChunks.simps[of env hs fin block] Let_def)
      from "1.IH"[OF True refl refl Inr refl refl refl refl rec]
      obtain new where new: "s_indexed st' = s_indexed ?st2 @ new"
        "n' = n + length ?evs + length new"
        "li' = (if new = [] then ?li else Some (last new))"
        "c_lastValidEvent (s_store st') = c_lastValidEvent (s_store ?st2)"
        "s_errorLog st' = s_errorLog ?st2"
        by auto
      have st2: "s_indexed ?st2 = s_indexed st @ ?evs"
        "c_lastValidEvent (s_store ?st2) = c_lastValidEvent (s_store st)"
        "s_errorLog ?st2 = s_errorLog st"
        by (simp_all add: addEventGroupToIndex_def insertEventsCacheBatch_def)
      show ?thesis
        by (rule exI[of _ "?evs @ new"]) (use new st2 in auto)
    qed
  qed
qed


lemma updateEventsCache_run:
  "updateEventsCache (mkDepositEnv 150 ok) (mkStore 100 []) =
     \<lparr>ur_threw = None, ur_isRootValid = Some ok,
      ur_lastValidWritten = (if ok then Some (mkEvent 150 0 ''0xff'' lidoWC0 True) else None),
      ur_newEventsCount = 1,
      ur_state =
        \<lparr>s_store = \<lparr>c_headers = \<lparr>h_startBlock = 0, h_endBlock = 150\<rparr>,
                    c_data = [mkEvent 150 0 ''0xff'' lidoWC0 True],
                    c_lastValidEvent =
                      (if ok then Some (mkEvent 150 0 ''0xff'' lidoWC0 True) else None)\<rparr>,
         s_indexed = [mkEvent 150 0 ''0xff'' lidoWC0 True],
         s_errorLog = (if ok then [] else [''Integrity check failed on block''])\<rparr>\<rparr>"
  by (simp add: updateEventsCache_def mkDepositEnv_def mkStore_def getCachedEvents_def
      verifyCacheBlock_def fetchChunks.simps DEPOSIT_EVENTS_STEP_def addEventGroupToIndex_def
      insertEventsCacheBatch_def insertLastValidEvent_def verifyUpdatedEvents_def Let_def)


text \<open>
  Claim C7. In every run of \<open>updateEventsCache\<close>, \<open>insertLastValidEvent\<close> is called
  exactly when the root comparison was made and succeeded and the run indexed at least
  one new event; the stored \<open>lastValidEvent\<close> then is the last indexed event, and
  otherwise it is what it was before the run. When the root comparison fails, the run
  returns without throwing, \<open>lastValidEvent\<close> is unchanged and one line
  ``Integrity check failed on block'' is added to the error log. The comparison is the
  one against \<open>get_deposit_root\<close> at the finalized block's hash over the events indexed
  so far.
\<close>

theorem updateEventsCache_lastValidEvent:
  assumes run: "updateEventsCache env st = r"
  shows "((ur_lastValidWritten r \<noteq> None)
            = (ur_isRootValid r = Some True \<and> s_indexed (ur_state r) \<noteq> s_indexed st))
    \<and> ((s_indexed (ur_state r) \<noteq> s_indexed st) = (0 < ur_newEventsCount r))
    \<and> (ur_lastValidWritten r = None \<longrightarrow>
          c_lastValidEvent (s_store (ur_state r)) = c_lastValidEvent (s_store st))
    \<and> (\<forall>e. ur_lastValidWritten r = Some e \<longrightarrow>
          c_lastValidEvent (s_store (ur_state r)) = Some e \<and> e = last (s_indexed (ur_state r)))
    \<and> (ur_isRootValid r = Some False \<longrightarrow>
          ur_threw r = None
          \<and> c_lastValidEvent (s_store (ur_state r)) = c_lastValidEvent (s_store st)
          \<and> s_errorLog (ur_state r) = s_errorLog st @ [''Integrity check failed on block''])
    \<and> (\<forall>n h b. env_finalizedBlock env = Inr (n, h) \<and> ur_isRootValid r = Some b \<longrightarrow>
          b = env_rootMatches env (s_indexed (ur_state r)) h)"
proof (cases "env_finalizedBlock env")
  case (Inl err)
  with run show ?thesis
    by (auto simp: updateEventsCache_def)
next
  case (Inr fb)
  obtain fin h where fb: "fb = (fin, h)" by (cases fb)
  let ?cache = "getCachedEvents env st"
  show ?thesis
  proof (cases "verifyCacheBlock ?cache fin")
    case False
    with run Inr fb show ?thesis
      by (auto simp: updateEventsCache_def Let_def)
  next
    case True
    obtain err st1 li n where fc:
      "fetchChunks env (c_headers ?cache) fin (h_endBlock (c_headers ?cache) + 1) st None 0
         = (err, st1, li, n)"
      by (metis prod_cases4)
    from fetchChunks_inv[OF fc]
    obtain new where new: "s_indexed st1 = s_indexed st @ new" "n = length new"
      "li = (if new = [] then None else Some (last new))"
      "c_lastValidEvent (s_store st1) = c_lastValidEvent (s_store st)"
      "s_errorLog st1 = s_errorLog st"
      by auto
    show ?thesis
    proof (cases err)
      case (Some e)
      with run Inr fb True fc have "r = \<lparr>ur_threw = Some e, ur_isRootValid = None,
                         ur_lastValidWritten = None, ur_newEventsCount = n,
                         ur_state = st1\<rparr>"
        by (simp add: updateEventsCache_def Let_def)
      with new show ?thesis by simp
    next
      case None
      let ?ok = "env_rootMatches env (s_indexed st1) h"
      show ?thesis
      proof (cases ?ok)
        case ok: True
        show ?thesis
        proof (cases "new = []")
          case e: True
          with run Inr fb True fc None ok new have "r = \<lparr>ur_threw = None, ur_isRootValid = Some True,
                         ur_lastValidWritten = None, ur_newEventsCount = n,
                         ur_state = st1\<rparr>"
            by (simp add: updateEventsCache_def Let_def verifyUpdatedEvents_def)
          with new e ok Inr fb show ?thesis by simp
        next
          case ne: False
          with run Inr fb True fc None ok new have "r = \<lparr>ur_threw = None, ur_isRootValid = Some True,
                         ur_lastValidWritten = Some (last new), ur_newEventsCount = n,
                         ur_state = insertLastValidEvent (last new) st1\<rparr>"
            by (simp add: updateEventsCache_def Let_def verifyUpdatedEvents_def)
          with new ne ok Inr fb show ?thesis by (simp add: insertLastValidEvent_def)
        qed
      next
        case bad: False
        with run Inr fb True fc None new have "r = \<lparr>ur_threw = None, ur_isRootValid = Some False,
                         ur_lastValidWritten = None, ur_newEventsCount = n,
                         ur_state = st1\<lparr>s_errorLog := s_errorLog st1
                                                @ [''Integrity check failed on block'']\<rparr>\<rparr>"
          by (simp add: updateEventsCache_def Let_def verifyUpdatedEvents_def)
        with new bad Inr fb show ?thesis by simp
      qed
    qed
  qed
qed

theorem updateEventsCache_lastValidEvent_witness:
  "ur_isRootValid (updateEventsCache (mkDepositEnv 150 True) (mkStore 100 [])) = Some True
   \<and> s_indexed (ur_state (updateEventsCache (mkDepositEnv 150 True) (mkStore 100 [])))
        \<noteq> s_indexed (mkStore 100 [])
   \<and> ur_lastValidWritten (updateEventsCache (mkDepositEnv 150 True) (mkStore 100 [])) \<noteq> None
   \<and> ur_isRootValid (updateEventsCache (mkDepositEnv 150 False) (mkStore 100 [])) = Some False
   \<and> ur_threw (updateEventsCache (mkDepositEnv 150 False) (mkStore 100 [])) = None
   \<and> c_lastValidEvent (s_store (ur_state
          (updateEventsCache (mkDepositEnv 150 False) (mkStore 100 []))))
        = c_lastValidEvent (s_store (mkStore 100 []))
   \<and> s_errorLog (ur_state (updateEventsCache (mkDepositEnv 150 False) (mkStore 100 [])))
        = s_errorLog (mkStore 100 []) @ [''Integrity check failed on block'']"
proof -
  let ?good = "updateEventsCache (mkDepositEnv 150 True) (mkStore 100 [])"
  let ?bad = "updateEventsCache (mkDepositEnv 150 False) (mkStore 100 [])"
  have g1: "ur_isRootValid ?good = Some True"
    by (simp add: updateEventsCache_run)
  have g2: "s_indexed (ur_state ?good) \<noteq> s_indexed (mkStore 100 [])"
    by (simp add: updateEventsCache_run) (simp add: mkStore_def)
  have g3: "ur_lastValidWritten ?good \<noteq> None"
    using updateEventsCache_lastValidEvent[OF refl, of "mkDepositEnv 150 True" "mkStore 100 []"]
      g1 g2 by blast
  have b1: "ur_isRootValid ?bad = Some False"
    by (simp add: updateEventsCache_run)
  have b2: "ur_threw ?bad = None
     \<and> c_lastValidEvent (s_store (ur_state ?bad)) = c_lastValidEvent (s_store (mkStore 100 []))
     \<and> s_errorLog (ur_state ?bad)
         = s_errorLog (mkStore 100 []) @ [''Integrity check failed on block'']"
    using updateEventsCache_lastValidEvent[OF refl, of "mkDepositEnv 150 False" "mkStore 100 []"]
      b1 by blast
  from g1 g2 g3 b1 b2 show ?thesis by blast
qed


text \<open>
  Claim C9. The cache is what \<open>getCachedEvents\<close> returns (\<open>cachedEvents\<close> in the
  source). When its end block lies after the requested block number,
  \<open>getAllDepositedEvents\<close> asks the fetcher for nothing and returns, without
  throwing, the cached events with the cache's own block range and \<open>isValid = false\<close>.
  Otherwise it asks the fetcher once, for the blocks after the cache up to the requested
  block number, and returns the cached events followed by the fetched ones (or throws
  what the fetcher threw). The cached events are those of the store.
\<close>

theorem getAllDepositedEvents_cache_check:
  "(h_endBlock (c_headers (getCachedEvents env st)) > blockNumber \<longrightarrow>
      getAllDepositedEvents env st blockNumber blockHash =
        ([], Inr \<lparr>grp_events = c_data (getCachedEvents env st),
                  grp_startBlock = h_startBlock (c_headers (getCachedEvents env st)),
                  grp_endBlock = h_endBlock (c_headers (getCachedEvents env st)),
                  grp_isValid = False\<rparr>))
   \<and> (\<not> h_endBlock (c_headers (getCachedEvents env st)) > blockNumber \<longrightarrow>
        fst (getAllDepositedEvents env st blockNumber blockHash)
          = [(h_endBlock (c_headers (getCachedEvents env st)) + 1, blockNumber)]
        \<and> (\<forall>fresh. env_fetchEventsFallOver env
                      (h_endBlock (c_headers (getCachedEvents env st)) + 1) blockNumber = Inr fresh
             \<longrightarrow> snd (getAllDepositedEvents env st blockNumber blockHash) =
                   Inr \<lparr>grp_events = c_data (getCachedEvents env st) @ grp_events fresh,
                        grp_startBlock = h_startBlock (c_headers (getCachedEvents env st)),
                        grp_endBlock = blockNumber,
                        grp_isValid = env_rootMatches env (s_indexed st @ grp_events fresh)
                                        blockHash\<rparr>)
        \<and> (\<forall>err. env_fetchEventsFallOver env
                      (h_endBlock (c_headers (getCachedEvents env st)) + 1) blockNumber = Inl err
             \<longrightarrow> snd (getAllDepositedEvents env st blockNumber blockHash) = Inl err))
   \<and> c_data (getCachedEvents env st) = c_data (s_store st)"
  by (auto simp: getAllDepositedEvents_def verifyCacheBlock_def verifyFreshEvents_def Let_def
      getCachedEvents_def split: sum.splits)


theorem getAllDepositedEvents_cache_check_witness:
  "h_endBlock (c_headers (getCachedEvents (mkDepositEnv 150 True)
       (mkStore 100 [mkEvent 50 0 ''0xaa'' lidoWC0 True]))) > 90
   \<and> getAllDepositedEvents (mkDepositEnv 150 True)
        (mkStore 100 [mkEvent 50 0 ''0xaa'' lidoWC0 True]) 90 ''0xb90''
      = ([], Inr \<lparr>grp_events = [mkEvent 50 0 ''0xaa'' lidoWC0 True], grp_startBlock = 0,
                  grp_endBlock = 100, grp_isValid = False\<rparr>)
   \<and> \<not> h_endBlock (c_headers (getCachedEvents (mkDepositEnv 150 True)
       (mkStore 100 [mkEvent 50 0 ''0xaa'' lidoWC0 True]))) > 120
   \<and> getAllDepositedEvents (mkDepositEnv 150 True)
        (mkStore 100 [mkEvent 50 0 ''0xaa'' lidoWC0 True]) 120 ''0xb120''
      = ([(101, 120)],
         Inr \<lparr>grp_events = [mkEvent 50 0 ''0xaa'' lidoWC0 True,
                             mkEvent 120 0 ''0xff'' lidoWC0 True],
              grp_startBlock = 0, grp_endBlock = 120, grp_isValid = True\<rparr>)"
proof -
  let ?env = "mkDepositEnv 150 True"
  let ?st = "mkStore 100 [mkEvent 50 0 ''0xaa'' lidoWC0 True]"
  have c: "getCachedEvents ?env ?st =
     \<lparr>c_headers = \<lparr>h_startBlock = 0, h_endBlock = 100\<rparr>,
      c_data = [mkEvent 50 0 ''0xaa'' lidoWC0 True], c_lastValidEvent = None\<rparr>"
    by (simp add: getCachedEvents_def mkDepositEnv_def mkStore_def)
  have f: "env_fetchEventsFallOver ?env (h_endBlock (c_headers (getCachedEvents ?env ?st)) + 1) 120
           = Inr \<lparr>grp_events = [mkEvent 120 0 ''0xff'' lidoWC0 True],
                  grp_startBlock = 101, grp_endBlock = 120, grp_isValid = True\<rparr>"
    unfolding c by (simp add: mkDepositEnv_def)
  have r: "env_rootMatches ?env (s_indexed ?st @ [mkEvent 120 0 ''0xff'' lidoWC0 True]) ''0xb120''"
    by (simp add: mkDepositEnv_def)
  have old: "h_endBlock (c_headers (getCachedEvents ?env ?st)) > 90" unfolding c by simp
  have new: "\<not> h_endBlock (c_headers (getCachedEvents ?env ?st)) > 120" unfolding c by simp
  have a: "getAllDepositedEvents ?env ?st 90 ''0xb90''
      = ([], Inr \<lparr>grp_events = [mkEvent 50 0 ''0xaa'' lidoWC0 True], grp_startBlock = 0,
                  grp_endBlock = 100, grp_isValid = False\<rparr>)"
    using getAllDepositedEvents_cache_check[of 90 ?env ?st "''0xb90''"] old unfolding c by simp
  have b: "fst (getAllDepositedEvents ?env ?st 120 ''0xb120'') = [(101, 120)]
      \<and> snd (getAllDepositedEvents ?env ?st 120 ''0xb120'')
        = Inr \<lparr>grp_events = [mkEvent 50 0 ''0xaa'' lidoWC0 True,
                               mkEvent 120 0 ''0xff'' lidoWC0 True],
                grp_startBlock = 0, grp_endBlock = 120, grp_isValid = True\<rparr>"
    using getAllDepositedEvents_cache_check[of 120 ?env ?st "''0xb120''"] new f r
    unfolding c by simp
  from old new a b show ?thesis by (simp add: prod_eq_iff)
qed

section \<open>Results on the signed deposit message\<close>

lemma length_toBigEndian: "length (toBigEndian width n) = width"
  by (induction width arbitrary: n) auto

lemma fromBigEndian_snoc: "fromBigEndian (bs @ [b]) = fromBigEndian bs * 256 + unat b"
  by (simp add: fromBigEndian_def)

lemma fromBigEndian_toBigEndian: "fromBigEndian (toBigEndian width n) = n mod 256 ^ width"
proof (induction width arbitrary: n)
  case 0
  then show ?case by (simp add: fromBigEndian_def)
next
  case (Suc width)
  have b: "unat (of_nat (n mod 256) :: 8 word) = n mod 256"
    by (simp add: unat_of_nat)
  have "fromBigEndian (toBigEndian (Suc width) n) = (n div 256) mod 256 ^ width * 256 + n mod 256"
    by (simp add: fromBigEndian_snoc Suc b)
  also have "\<dots> = n mod 256 ^ Suc width"
    by (simp add: mod_mult2_eq)
  finally show ?case .
qed

lemma encode_uint256:
  "0 \<le> n \<Longrightarrow> n < MAX_SAFE \<Longrightarrow>
     encodeStatic ''uint256'' (NumberValue n) = Inr (toBigEndian 32 (nat n))"
  by (simp add: encodeStatic_def MAX_SAFE_def)

lemma encode_bytes32:
  "length b = 32 \<Longrightarrow> encodeStatic ''bytes32'' (BytesValue b) = Inr b"
  by (simp add: encodeStatic_def)

lemma uint256_roundtrip:
  assumes "0 \<le> n" "n < MAX_SAFE"
  shows "int (fromBigEndian (toBigEndian 32 (nat n))) = n"
proof -
  have "n < 256 ^ 32" using assms(2) by (simp add: MAX_SAFE_def)
  then have "nat n < 256 ^ 32" using assms(1) by (simp add: nat_less_iff)
  then show ?thesis using assms by (simp add: fromBigEndian_toBigEndian)
qed

text \<open>
  Claim C5, for the numbers the ABI coder takes. For parameters whose three byte strings
  have 32 bytes and whose three numbers are non-negative and below
  \<open>MAX_SAFE = 2\<^sup>5\<^sup>3 - 1\<close>, \<open>signDepositData\<close> returns the signature, under the
  wallet's private key, of the keccak256 digest of the 192 bytes
  \<open>prefix, blockNumber, blockHash, depositRoot, stakingModuleId, keysOpIndex\<close> in this
  order, each number being the 32-byte big-endian word that spells it.
\<close>

theorem signDepositData_encoding:
  assumes "length (sp_prefix p) = 32" and "length (sp_blockHash p) = 32"
    and "length (sp_depositRoot p) = 32"
    and "0 \<le> sp_blockNumber p" and "sp_blockNumber p < MAX_SAFE"
    and "0 \<le> sp_stakingModuleId p" and "sp_stakingModuleId p < MAX_SAFE"
    and "0 \<le> sp_keysOpIndex p" and "sp_keysOpIndex p < MAX_SAFE"
  shows "signDepositData keccak256 signDigest walletKey p =
           Inr (signDigest walletKey
                  (keccak256 (sp_prefix p
                              @ toBigEndian 32 (nat (sp_blockNumber p))
                              @ sp_blockHash p
                              @ sp_depositRoot p
                              @ toBigEndian 32 (nat (sp_stakingModuleId p))
                              @ toBigEndian 32 (nat (sp_keysOpIndex p)))))
    \<and> length (toBigEndian 32 (nat (sp_blockNumber p))) = 32
    \<and> int (fromBigEndian (toBigEndian 32 (nat (sp_blockNumber p)))) = sp_blockNumber p
    \<and> length (toBigEndian 32 (nat (sp_stakingModuleId p))) = 32
    \<and> int (fromBigEndian (toBigEndian 32 (nat (sp_stakingModuleId p)))) = sp_stakingModuleId p
    \<and> length (toBigEndian 32 (nat (sp_keysOpIndex p))) = 32
    \<and> int (fromBigEndian (toBigEndian 32 (nat (sp_keysOpIndex p)))) = sp_keysOpIndex p"
proof -
  have "signDepositData keccak256 signDigest walletKey p =
           Inr (signDigest walletKey
                  (keccak256 (sp_prefix p
                              @ toBigEndian 32 (nat (sp_blockNumber p))
                              @ sp_blockHash p
                              @ sp_depositRoot p
                              @ toBigEndian 32 (nat (sp_stakingModuleId p))
                              @ toBigEndian 32 (nat (sp_keysOpIndex p)))))"
    using assms
    by (simp add: signDepositData_def signMessage_def encode_uint256 encode_bytes32)
  then show ?thesis
    using assms by (simp add: length_toBigEndian uint256_roundtrip)
qed

theorem signDepositData_encoding_witness:
  "length (hexZeroPad32 1) = 32 \<and> length (hexZeroPad32 3) = 32 \<and> length (hexZeroPad32 2) = 32
   \<and> (0::int) \<le> 1 \<and> (1::int) < MAX_SAFE
   \<and> signDepositData digestStandIn signStandIn ''key''
        \<lparr>sp_prefix = hexZeroPad32 1, sp_blockNumber = 1, sp_blockHash = hexZeroPad32 3,
         sp_depositRoot = hexZeroPad32 2, sp_keysOpIndex = 1, sp_stakingModuleId = 1\<rparr>
      = Inr (''key'', digestStandIn (hexZeroPad32 1 @ hexZeroPad32 1 @ hexZeroPad32 3
                                     @ hexZeroPad32 2 @ hexZeroPad32 1 @ hexZeroPad32 1))"
proof -
  let ?p = "\<lparr>sp_prefix = hexZeroPad32 1, sp_blockNumber = 1, sp_blockHash = hexZeroPad32 3,
         sp_depositRoot = hexZeroPad32 2, sp_keysOpIndex = 1, sp_stakingModuleId = 1\<rparr>"
  have len: "\<And>n. length (hexZeroPad32 n) = 32" by (simp add: hexZeroPad32_def)
  have one: "toBigEndian 32 (Suc 0) = hexZeroPad32 (Suc 0)"
    by code_simp
  have rng: "(0::int) \<le> 1 \<and> (1::int) < MAX_SAFE" by (simp add: MAX_SAFE_def)
  have "signDepositData digestStandIn signStandIn ''key'' ?p
      = Inr (signStandIn ''key''
               (digestStandIn (hexZeroPad32 1 @ toBigEndian 32 (nat 1) @ hexZeroPad32 3
                               @ hexZeroPad32 2 @ toBigEndian 32 (nat 1)
                               @ toBigEndian 32 (nat 1))))"
    using signDepositData_encoding[of ?p digestStandIn signStandIn "''key''"] len rng
    by simp
  with len rng show ?thesis by (simp add: one signStandIn_def)
qed

text \<open>
  For every input the claim fails: the three numbers are JavaScript numbers, and the
  coder refuses the number \<open>2\<^sup>5\<^sup>3 - 1\<close>, which a \<open>uint256\<close> holds. With that block
  number and every other field as in the service's test, \<open>signDepositData\<close> throws the
  overflow fault and signs nothing.
\<close>

theorem signDepositData_unsafe_number_counterexample:
  "(0::int) \<le> 9007199254740991 \<and> (9007199254740991::int) < 2 ^ 256
   \<and> signDepositData digestStandIn signStandIn ''key''
        \<lparr>sp_prefix = hexZeroPad32 1, sp_blockNumber = 9007199254740991,
         sp_blockHash = hexZeroPad32 3, sp_depositRoot = hexZeroPad32 2, sp_keysOpIndex = 1,
         sp_stakingModuleId = 1\<rparr>
      = Inl (NumericFault ''overflow'')"
  by (simp add: signDepositData_def encodeStatic_def MAX_SAFE_def hexZeroPad32_def)

section \<open>Results on the guardian wallet\<close>

lemma wallet_cached:
  "ws_cachedWallet this = Some w \<Longrightarrow> wallet validKey addressOf randomKey this = (Inr w, this)"
  by (simp add: wallet_def)

lemma walletAccesses_cached:
  "ws_cachedWallet this = Some w \<Longrightarrow>
     walletAccesses validKey addressOf randomKeys this = replicate (length randomKeys) (Inr w)"
  by (induction randomKeys) (simp_all add: wallet_cached)


text \<open>
  Claim C10. When the configured private key is the empty string and no wallet is
  cached yet, the first access to \<open>wallet\<close> does not fail: it takes the random private
  key (a key the \<open>Wallet\<close> constructor accepts), builds the wallet of that key and
  caches it. Every later access returns this very wallet and leaves the service as it
  is, whatever random key it could draw, and \<open>address\<close> keeps returning the address of
  the key drawn first.
\<close>

theorem wallet_generated_once:
  assumes "ws_privateKey this = []" and "ws_cachedWallet this = None" and "validKey randomKey"
  shows "\<exists>w. fst (wallet validKey addressOf randomKey this) = Inr w
            \<and> w_privateKey w = randomKey
            \<and> w_address w = addressOf randomKey
            \<and> ws_cachedWallet (snd (wallet validKey addressOf randomKey this)) = Some w
            \<and> ws_privateKey (snd (wallet validKey addressOf randomKey this)) = randomKey
            \<and> (\<forall>later. walletAccesses validKey addressOf (randomKey # later) this
                          = replicate (Suc (length later)) (Inr w))
            \<and> (\<forall>otherKey. wallet validKey addressOf otherKey
                              (snd (wallet validKey addressOf randomKey this))
                            = (Inr w, snd (wallet validKey addressOf randomKey this)))
            \<and> (\<forall>otherKey. fst (address validKey addressOf otherKey
                                   (snd (wallet validKey addressOf randomKey this)))
                            = Inr (addressOf randomKey))"
proof -
  let ?this1 = "this\<lparr>ws_warnings := ws_warnings this @
                      [''Private key is not provided, a random address will be generated for the test run''],
                    ws_privateKey := randomKey,
                    ws_constructed := Suc (ws_constructed this)\<rparr>"
  let ?w = "\<lparr>w_ref = ws_constructed ?this1, w_privateKey = randomKey,
             w_address = addressOf randomKey\<rparr>"
  let ?this2 = "?this1\<lparr>ws_cachedWallet := Some ?w,
                        ws_constructed := Suc (ws_constructed ?this1)\<rparr>"
  from assms have first: "wallet validKey addressOf randomKey this = (Inr ?w, ?this2)"
    by (simp add: wallet_def Let_def)
  have cached: "ws_cachedWallet ?this2 = Some ?w" by simp
  have later: "walletAccesses validKey addressOf (randomKey # later) this
                          = replicate (Suc (length later)) (Inr ?w)" for later
  proof -
    have "walletAccesses validKey addressOf (randomKey # later) this
            = Inr ?w # walletAccesses validKey addressOf later ?this2"
      by (simp only: walletAccesses.simps first prod.case)
    also have "walletAccesses validKey addressOf later ?this2 = replicate (length later) (Inr ?w)"
      by (rule walletAccesses_cached[OF cached])
    finally show ?thesis by (simp only: replicate_Suc)
  qed
  have again: "\<And>otherKey. wallet validKey addressOf otherKey ?this2 = (Inr ?w, ?this2)"
    by (rule wallet_cached[OF cached])
  have addr: "\<And>otherKey. fst (address validKey addressOf otherKey ?this2) = Inr (addressOf randomKey)"
    unfolding address_def again by simp
  show ?thesis
    unfolding first
    by (rule exI[of _ ?w]) (use later again addr in simp)
qed

theorem wallet_generated_once_witness:
  "ws_privateKey (newWalletService []) = [] \<and> ws_cachedWallet (newWalletService []) = None
   \<and> validKeyStandIn ''k001''
   \<and> walletAccesses validKeyStandIn addressStandIn [''k001'', ''k002'', ''k003'']
        (newWalletService [])
      = [Inr \<lparr>w_ref = 1, w_privateKey = ''k001'', w_address = ''0xk001''\<rparr>,
         Inr \<lparr>w_ref = 1, w_privateKey = ''k001'', w_address = ''0xk001''\<rparr>,
         Inr \<lparr>w_ref = 1, w_privateKey = ''k001'', w_address = ''0xk001''\<rparr>]"
proof -
  have h: "ws_privateKey (newWalletService []) = []" "ws_cachedWallet (newWalletService []) = None"
    "validKeyStandIn ''k001''"
    by (simp_all add: newWalletService_def validKeyStandIn_def)
  from wallet_generated_once[where this = "newWalletService []" and validKey = validKeyStandIn
      and randomKey = "''k001''" and addressOf = addressStandIn, OF h]
  obtain w where w: "fst (wallet validKeyStandIn addressStandIn ''k001'' (newWalletService [])) = Inr w"
    and l: "\<forall>later. walletAccesses validKeyStandIn addressStandIn (''k001'' # later)
                      (newWalletService []) = replicate (Suc (length later)) (Inr w)"
    by blast
  have "fst (wallet validKeyStandIn addressStandIn ''k001'' (newWalletService []))
        = Inr \<lparr>w_ref = 1, w_privateKey = ''k001'', w_address = ''0xk001''\<rparr>"
    by (simp add: wallet_def newWalletService_def validKeyStandIn_def addressStandIn_def Let_def)
  with w have "w = \<lparr>w_ref = 1, w_privateKey = ''k001'', w_address = ''0xk001''\<rparr>" by simp
  with l[rule_format, of "[''k002'', ''k003'']"] h show ?thesis by simp
qed

section \<open>Results on the cache of validated deposit signatures\<close>

text \<open>
  After a call, the cache holds for every key of the list its own signature and the
  withdrawal credentials of the call, provided keys that share a public key share the
  signature: the entry of a public key is written by the last validated key that
  carries it.
\<close>

lemma updateCache_snoc:
  "updateCache cache wc (vs @ [(k, v)]) =
     (updateCache cache wc vs)(rk_key k \<mapsto> \<lparr>ce_depositSignature = rk_depositSignature k,
                                            ce_wc = wc, ce_valid = v\<rparr>)"
  by (simp add: updateCache_def)

lemma updateCache_validateKeys:
  "updateCache cache wc (validateKeys verify ks wc) p =
     (if \<exists>k \<in> set ks. rk_key k = p
      then Some \<lparr>ce_depositSignature = rk_depositSignature (last (filter (\<lambda>k. rk_key k = p) ks)),
                 ce_wc = wc,
                 ce_valid = verify p (rk_depositSignature (last (filter (\<lambda>k. rk_key k = p) ks))) wc\<rparr>
      else cache p)"
proof (induction ks rule: rev_induct)
  case Nil
  then show ?case by (simp add: updateCache_def validateKeys_def)
next
  case (snoc k ks)
  have "validateKeys verify (ks @ [k]) wc
        = validateKeys verify ks wc @ [(k, verify (rk_key k) (rk_depositSignature k) wc)]"
    by (simp add: validateKeys_def)
  then show ?case
    using snoc by (auto simp: updateCache_snoc)
qed

lemma last_filter_in:
  "\<exists>k \<in> set ks. P k \<Longrightarrow> last (filter P ks) \<in> set ks \<and> P (last (filter P ks))"
proof -
  assume "\<exists>k \<in> set ks. P k"
  then have "filter P ks \<noteq> []" by (simp add: filter_empty_conv)
  then have "last (filter P ks) \<in> set (filter P ks)" by (rule last_in_set)
  then show ?thesis by simp
qed

lemma gik_called:
  "gik_validateKeysCalledWith (getInvalidKeys verify cache keys wc)
     = filter (needsValidation cache wc) keys"
  by (simp add: getInvalidKeys_def Let_def)

lemma cache_after_call:
  assumes cons: "sameSignaturePerPubkey keys" and k: "k \<in> set keys"
  shows "gik_cache (getInvalidKeys verify cache keys wc) (rk_key k) =
           Some \<lparr>ce_depositSignature = rk_depositSignature k, ce_wc = wc,
                 ce_valid = (if needsValidation cache wc k
                             then verify (rk_key k) (rk_depositSignature k) wc
                             else ce_valid (the (cache (rk_key k))))\<rparr>"
proof -
  let ?ks = "filter (needsValidation cache wc) keys"
  let ?p = "rk_key k"
  have c: "gik_cache (getInvalidKeys verify cache keys wc) ?p
           = updateCache cache wc (validateKeys verify ?ks wc) ?p"
    by (simp add: getInvalidKeys_def Let_def)
  show ?thesis
  proof (cases "needsValidation cache wc k")
    case True
    with k have ex: "\<exists>k' \<in> set ?ks. rk_key k' = ?p" by auto
    from last_filter_in[OF ex]
    have "last (filter (\<lambda>k'. rk_key k' = ?p) ?ks) \<in> set keys"
      and "rk_key (last (filter (\<lambda>k'. rk_key k' = ?p) ?ks)) = ?p"
      by auto
    with cons k have "rk_depositSignature (last (filter (\<lambda>k'. rk_key k' = ?p) ?ks))
                        = rk_depositSignature k"
      unfolding sameSignaturePerPubkey_def by blast
    with ex True show ?thesis
      unfolding c updateCache_validateKeys by simp
  next
    case False
    then obtain e where e: "cache ?p = Some e" "ce_depositSignature e = rk_depositSignature k"
      "ce_wc e = wc"
      by (auto simp: needsValidation_def split: option.splits)
    have "\<not> (\<exists>k' \<in> set ?ks. rk_key k' = ?p)"
    proof
      assume "\<exists>k' \<in> set ?ks. rk_key k' = ?p"
      then obtain k' where k': "k' \<in> set keys" "needsValidation cache wc k'" "rk_key k' = ?p"
        by auto
      with cons k have "rk_depositSignature k' = rk_depositSignature k"
        unfolding sameSignaturePerPubkey_def by blast
      with k' e show False by (simp add: needsValidation_def)
    qed
    with False e show ?thesis
      unfolding c updateCache_validateKeys by simp
  qed
qed

lemma no_validation_after_call:
  assumes "sameSignaturePerPubkey keys" and "k \<in> set keys"
  shows "\<not> needsValidation (gik_cache (getInvalidKeys verify cache keys wc)) wc k"
  by (simp add: needsValidation_def cache_after_call[OF assms])

lemma invalid_from_validation:
  "map fst (filter (\<lambda>(k, isValid). \<not> isValid) (validateKeys verify ks wc))
     = filter (\<lambda>k. \<not> verify (rk_key k) (rk_depositSignature k) wc) ks"
  by (induction ks) (simp_all add: validateKeys_def)

lemma gik_invalid:
  "gik_invalidKeys (getInvalidKeys verify cache keys wc) =
     filter (\<lambda>k. \<not> needsValidation cache wc k
                   \<and> (case cache (rk_key k) of Some entry \<Rightarrow> \<not> ce_valid entry | None \<Rightarrow> False))
       keys
     @ filter (\<lambda>k. \<not> verify (rk_key k) (rk_depositSignature k) wc)
         (filter (needsValidation cache wc) keys)"
  by (simp add: getInvalidKeys_def Let_def invalid_from_validation)

lemma invalid_first_call:
  "set (gik_invalidKeys (getInvalidKeys verify cache keys wc)) =
     {k \<in> set keys. \<not> (if needsValidation cache wc k
                         then verify (rk_key k) (rk_depositSignature k) wc
                         else ce_valid (the (cache (rk_key k))))}"
proof -
  have "\<And>k. \<not> needsValidation cache wc k \<Longrightarrow> \<exists>entry. cache (rk_key k) = Some entry"
    by (auto simp: needsValidation_def split: option.splits)
  then show ?thesis
    unfolding gik_invalid by (auto split: option.splits)
qed

lemma filter_update_single:
  assumes "i < length xs" and "P y" and "\<forall>x \<in> set xs. \<not> P x"
  shows "filter P (xs[i := y]) = [y]"
proof -
  have "xs[i := y] = take i xs @ y # drop (Suc i) xs"
    using assms(1) by (rule upd_conv_take_nth_drop)
  moreover have "filter P (take i xs) = []"
    using assms(3) by (auto simp: filter_empty_conv dest: in_set_takeD)
  moreover have "filter P (drop (Suc i) xs) = []"
    using assms(3) by (auto simp: filter_empty_conv dest: in_set_dropD)
  ultimately show ?thesis using assms(2) by simp
qed


text \<open>
  Claim C6, for key lists in which keys that share a public key share the deposit
  signature. After \<open>getInvalidKeys(K, wc)\<close>, a repeated call with the same \<open>K\<close> and
  \<open>wc\<close> invokes the verifier with the empty list and returns the same set of invalid
  keys; if the deposit signature of one key is changed between the calls, the verifier
  is invoked with exactly that key; and in every call the verifier is invoked with
  precisely the keys whose \<open>(depositSignature, wc)\<close> differs from the cache entry of
  their public key (or that have none).
\<close>

theorem getInvalidKeys_cache:
  assumes cons: "sameSignaturePerPubkey keys"
  shows "gik_validateKeysCalledWith
           (getInvalidKeys verify (gik_cache (getInvalidKeys verify cache keys wc)) keys wc) = []
    \<and> set (gik_invalidKeys
             (getInvalidKeys verify (gik_cache (getInvalidKeys verify cache keys wc)) keys wc))
        = set (gik_invalidKeys (getInvalidKeys verify cache keys wc))
    \<and> (\<forall>i newSignature.
          i < length keys \<and> newSignature \<noteq> rk_depositSignature (keys ! i) \<longrightarrow>
          gik_validateKeysCalledWith
            (getInvalidKeys verify (gik_cache (getInvalidKeys verify cache keys wc))
               (keys[i := (keys ! i)\<lparr>rk_depositSignature := newSignature\<rparr>]) wc)
          = [(keys ! i)\<lparr>rk_depositSignature := newSignature\<rparr>])
    \<and> gik_validateKeysCalledWith (getInvalidKeys verify cache keys wc)
        = filter (\<lambda>k. \<forall>entry. cache (rk_key k) = Some entry \<longrightarrow>
                        (ce_depositSignature entry, ce_wc entry) \<noteq> (rk_depositSignature k, wc))
            keys"
proof (intro conjI allI impI)
  let ?c1 = "gik_cache (getInvalidKeys verify cache keys wc)"
  have nn: "\<forall>k \<in> set keys. \<not> needsValidation ?c1 wc k"
    using no_validation_after_call[OF cons] by blast
  show "gik_validateKeysCalledWith (getInvalidKeys verify ?c1 keys wc) = []"
    unfolding gik_called using nn by (simp add: filter_empty_conv)
  show "set (gik_invalidKeys (getInvalidKeys verify ?c1 keys wc))
        = set (gik_invalidKeys (getInvalidKeys verify cache keys wc))"
    unfolding invalid_first_call using nn cache_after_call[OF cons, of _ verify cache wc]
    by (auto split: if_splits)
  show "gik_validateKeysCalledWith (getInvalidKeys verify cache keys wc)
        = filter (\<lambda>k. \<forall>entry. cache (rk_key k) = Some entry \<longrightarrow>
                        (ce_depositSignature entry, ce_wc entry) \<noteq> (rk_depositSignature k, wc))
            keys"
    unfolding gik_called
    by (rule filter_cong) (auto simp: needsValidation_def split: option.splits)
next
  fix i newSignature
  let ?c1 = "gik_cache (getInvalidKeys verify cache keys wc)"
  let ?k' = "(keys ! i)\<lparr>rk_depositSignature := newSignature\<rparr>"
  assume a: "i < length keys \<and> newSignature \<noteq> rk_depositSignature (keys ! i)"
  then have ki: "keys ! i \<in> set keys" by simp
  have "needsValidation ?c1 wc ?k'"
  proof -
    from cache_after_call[OF cons ki, of verify cache wc]
    obtain e where "?c1 (rk_key (keys ! i)) = Some e"
      "ce_depositSignature e = rk_depositSignature (keys ! i)"
      by simp
    with a show ?thesis by (auto simp: needsValidation_def)
  qed
  moreover have "\<forall>k \<in> set keys. \<not> needsValidation ?c1 wc k"
    using no_validation_after_call[OF cons] by blast
  ultimately have "filter (needsValidation ?c1 wc) (keys[i := ?k']) = [?k']"
    using a by (intro filter_update_single) auto
  then show "gik_validateKeysCalledWith (getInvalidKeys verify ?c1 (keys[i := ?k']) wc) = [?k']"
    unfolding gik_called .
qed


theorem getInvalidKeys_cache_witness:
  "sameSignaturePerPubkey
     [mkKey ''0xaa'' ''0xgood'', mkKey ''0xbb'' ''0xbad1'', mkKey ''0xcc'' ''0xbad2'']
   \<and> gik_validateKeysCalledWith
        (getInvalidKeys verifyStandIn
           (gik_cache (getInvalidKeys verifyStandIn Map.empty
              [mkKey ''0xaa'' ''0xgood'', mkKey ''0xbb'' ''0xbad1'', mkKey ''0xcc'' ''0xbad2'']
              lidoWC0))
           [mkKey ''0xaa'' ''0xgood'', mkKey ''0xbb'' ''0xbad1'', mkKey ''0xcc'' ''0xbad2'']
           lidoWC0) = []
   \<and> set (gik_invalidKeys
        (getInvalidKeys verifyStandIn
           (gik_cache (getInvalidKeys verifyStandIn Map.empty
              [mkKey ''0xaa'' ''0xgood'', mkKey ''0xbb'' ''0xbad1'', mkKey ''0xcc'' ''0xbad2'']
              lidoWC0))
           [mkKey ''0xaa'' ''0xgood'', mkKey ''0xbb'' ''0xbad1'', mkKey ''0xcc'' ''0xbad2'']
           lidoWC0))
      = {mkKey ''0xbb'' ''0xbad1'', mkKey ''0xcc'' ''0xbad2''}
   \<and> gik_validateKeysCalledWith
        (getInvalidKeys verifyStandIn
           (gik_cache (getInvalidKeys verifyStandIn Map.empty
              [mkKey ''0xaa'' ''0xgood'', mkKey ''0xbb'' ''0xbad1'', mkKey ''0xcc'' ''0xbad2'']
              lidoWC0))
           [mkKey ''0xaa'' ''0xgood'', mkKey ''0xbb'' ''0xbad1'', mkKey ''0xcc'' ''0xgood'']
           lidoWC0) = [mkKey ''0xcc'' ''0xgood'']"
proof -
  let ?K = "[mkKey ''0xaa'' ''0xgood'', mkKey ''0xbb'' ''0xbad1'', mkKey ''0xcc'' ''0xbad2'']"
  let ?c1 = "gik_cache (getInvalidKeys verifyStandIn Map.empty ?K lidoWC0)"
  have h: "sameSignaturePerPubkey ?K"
    by (simp add: sameSignaturePerPubkey_def mkKey_def)
  note t = getInvalidKeys_cache[OF h, of verifyStandIn Map.empty lidoWC0]
  have a: "gik_validateKeysCalledWith (getInvalidKeys verifyStandIn ?c1 ?K lidoWC0) = []"
    using t by blast
  have first: "set (gik_invalidKeys (getInvalidKeys verifyStandIn Map.empty ?K lidoWC0))
                 = {mkKey ''0xbb'' ''0xbad1'', mkKey ''0xcc'' ''0xbad2''}"
    by (simp add: getInvalidKeys_def validateKeys_def needsValidation_def verifyStandIn_def
        mkKey_def)
  have b: "set (gik_invalidKeys (getInvalidKeys verifyStandIn ?c1 ?K lidoWC0))
             = {mkKey ''0xbb'' ''0xbad1'', mkKey ''0xcc'' ''0xbad2''}"
    using t first by simp
  have i: "Suc (Suc 0) < length ?K
           \<and> ''0xgood'' \<noteq> rk_depositSignature (?K ! Suc (Suc 0))"
    by (simp add: mkKey_def)
  have u: "?K[Suc (Suc 0) := (?K ! Suc (Suc 0))\<lparr>rk_depositSignature := ''0xgood''\<rparr>]
           = [mkKey ''0xaa'' ''0xgood'', mkKey ''0xbb'' ''0xbad1'', mkKey ''0xcc'' ''0xgood'']"
    by (simp add: mkKey_def)
  have "gik_validateKeysCalledWith
          (getInvalidKeys verifyStandIn ?c1
             (?K[Suc (Suc 0) := (?K ! Suc (Suc 0))\<lparr>rk_depositSignature := ''0xgood''\<rparr>]) lidoWC0)
        = [(?K ! Suc (Suc 0))\<lparr>rk_depositSignature := ''0xgood''\<rparr>]"
    using t i by blast
  then have c: "gik_validateKeysCalledWith
          (getInvalidKeys verifyStandIn ?c1
             [mkKey ''0xaa'' ''0xgood'', mkKey ''0xbb'' ''0xbad1'', mkKey ''0xcc'' ''0xgood'']
             lidoWC0)
        = [mkKey ''0xcc'' ''0xgood'']"
    unfolding u by (simp add: mkKey_def)
  from h a b c show ?thesis by blast
qed


text \<open>
  For every key list the claim fails: the cache has one entry for a public key. With two
  keys of one public key and different signatures (two operators holding the same key),
  the entry left by the first call matches the second key only, and the repeated call
  invokes the verifier with the first key.
\<close>

theorem getInvalidKeys_shared_pubkey_counterexample:
  "gik_validateKeysCalledWith
     (getInvalidKeys verifyStandIn
        (gik_cache (getInvalidKeys verifyStandIn Map.empty
           [mkKey ''0xaa'' ''0xgood'', mkKey ''0xaa'' ''0xbad''] lidoWC0))
        [mkKey ''0xaa'' ''0xgood'', mkKey ''0xaa'' ''0xbad''] lidoWC0)
   = [mkKey ''0xaa'' ''0xgood'']"
  by (simp add: getInvalidKeys_def validateKeys_def needsValidation_def updateCache_def
      verifyStandIn_def mkKey_def)


section \<open>Results on the guarded pause submission\<close>

text \<open>
  Once the second invocation has been skipped while the first was in flight, every
  further segment keeps it skipped, and the contract has been called exactly when the
  first invocation has passed its submission.
\<close>

lemma advance_keeps_overlap:
  assumes "ps_phase s Second = Skipped"
    and "(ps_phase s First = Entered \<and> ps_isExecuting s \<and> ps_contractCalls s = [])
         \<or> (ps_phase s First = Pending \<and> ps_isExecuting s \<and> ps_contractCalls s = [args First])
         \<or> (ps_phase s First = Done \<and> \<not> ps_isExecuting s \<and> ps_contractCalls s = [args First])"
  shows "ps_phase (advance args c s) Second = Skipped
    \<and> ((ps_phase (advance args c s) First = Entered \<and> ps_isExecuting (advance args c s)
          \<and> ps_contractCalls (advance args c s) = [])
        \<or> (ps_phase (advance args c s) First = Pending \<and> ps_isExecuting (advance args c s)
          \<and> ps_contractCalls (advance args c s) = [args First])
        \<or> (ps_phase (advance args c s) First = Done \<and> \<not> ps_isExecuting (advance args c s)
          \<and> ps_contractCalls (advance args c s) = [args First]))"
  using assms by (cases c) (auto simp: advance_def)

lemma runSchedule_keeps_overlap:
  assumes "ps_phase s Second = Skipped"
    and "(ps_phase s First = Entered \<and> ps_isExecuting s \<and> ps_contractCalls s = [])
         \<or> (ps_phase s First = Pending \<and> ps_isExecuting s \<and> ps_contractCalls s = [args First])
         \<or> (ps_phase s First = Done \<and> \<not> ps_isExecuting s \<and> ps_contractCalls s = [args First])"
  shows "ps_phase (runSchedule args schedule s) Second = Skipped
    \<and> ((ps_phase (runSchedule args schedule s) First = Entered
          \<and> ps_isExecuting (runSchedule args schedule s)
          \<and> ps_contractCalls (runSchedule args schedule s) = [])
        \<or> (ps_phase (runSchedule args schedule s) First = Pending
          \<and> ps_isExecuting (runSchedule args schedule s)
          \<and> ps_contractCalls (runSchedule args schedule s) = [args First])
        \<or> (ps_phase (runSchedule args schedule s) First = Done
          \<and> \<not> ps_isExecuting (runSchedule args schedule s)
          \<and> ps_contractCalls (runSchedule args schedule s) = [args First]))"
  using assms
proof (induction schedule arbitrary: s)
  case Nil
  then show ?case by simp
next
  case (Cons c schedule)
  from advance_keeps_overlap[where args = args and c = c and s = s, OF Cons.prems]
  show ?case
    unfolding runSchedule.simps by (intro Cons.IH) blast+
qed


text \<open>
  Claim C8. While the first invocation of the guarded pause submission is in flight
  (entered, or its transaction pending), a second invocation that starts returns at
  once and changes nothing but its own status: the flag and the list of contract calls
  are as before. Whatever the order of the segments that follow, the second invocation
  stays skipped, the contract method is never called a second time, and once the first
  invocation has ended it has been called exactly once, with the first invocation's
  arguments.
\<close>

theorem pauseDeposits_one_at_time:
  assumes "ps_isExecuting s" and "ps_phase s Second = NotStarted"
    and "(ps_phase s First = Entered \<and> ps_contractCalls s = [])
         \<or> (ps_phase s First = Pending \<and> ps_contractCalls s = [args First])"
  shows "advance args Second s = s\<lparr>ps_phase := (ps_phase s)(Second := Skipped)\<rparr>
    \<and> (\<forall>schedule.
          ps_phase (runSchedule args (Second # schedule) s) Second = Skipped
          \<and> (ps_contractCalls (runSchedule args (Second # schedule) s) = []
               \<or> ps_contractCalls (runSchedule args (Second # schedule) s) = [args First])
          \<and> (ps_phase (runSchedule args (Second # schedule) s) First = Done \<longrightarrow>
                ps_contractCalls (runSchedule args (Second # schedule) s) = [args First]
                \<and> \<not> ps_isExecuting (runSchedule args (Second # schedule) s)))"
proof -
  let ?s1 = "s\<lparr>ps_phase := (ps_phase s)(Second := Skipped)\<rparr>"
  from assms have skip: "advance args Second s = ?s1"
    by (simp add: advance_def)
  have p: "ps_phase ?s1 Second = Skipped" by simp
  from assms have q:
    "(ps_phase ?s1 First = Entered \<and> ps_isExecuting ?s1 \<and> ps_contractCalls ?s1 = [])
     \<or> (ps_phase ?s1 First = Pending \<and> ps_isExecuting ?s1 \<and> ps_contractCalls ?s1 = [args First])
     \<or> (ps_phase ?s1 First = Done \<and> \<not> ps_isExecuting ?s1 \<and> ps_contractCalls ?s1 = [args First])"
    by auto
  have "ps_phase (runSchedule args (Second # schedule) s) Second = Skipped
          \<and> (ps_contractCalls (runSchedule args (Second # schedule) s) = []
               \<or> ps_contractCalls (runSchedule args (Second # schedule) s) = [args First])
          \<and> (ps_phase (runSchedule args (Second # schedule) s) First = Done \<longrightarrow>
                ps_contractCalls (runSchedule args (Second # schedule) s) = [args First]
                \<and> \<not> ps_isExecuting (runSchedule args (Second # schedule) s))" for schedule
    using runSchedule_keeps_overlap[where args = args and s = ?s1 and schedule = schedule, OF p q]
    unfolding runSchedule.simps skip by auto
  with skip show ?thesis by blast
qed

theorem pauseDeposits_one_at_time_witness:
  "ps_isExecuting (runSchedule pauseArgs [First, First] idle)
   \<and> ps_phase (runSchedule pauseArgs [First, First] idle) Second = NotStarted
   \<and> ps_phase (runSchedule pauseArgs [First, First] idle) First = Pending
   \<and> ps_contractCalls (runSchedule pauseArgs [First, First] idle) = [pauseArgs First]
   \<and> ps_phase (runSchedule pauseArgs [First, First, Second, Second, First, Second] idle) Second
       = Skipped
   \<and> ps_phase (runSchedule pauseArgs [First, First, Second, Second, First, Second] idle) First
       = Done
   \<and> ps_contractCalls (runSchedule pauseArgs [First, First, Second, Second, First, Second] idle)
       = [(10, 1, ''0xsignature'')]"
proof -
  let ?s = "runSchedule pauseArgs [First, First] idle"
  have s: "?s = \<lparr>ps_isExecuting = True, ps_contractCalls = [pauseArgs First],
                 ps_phase = ((\<lambda>c. NotStarted)(First := Pending))\<rparr>"
    by (simp add: idle_def advance_def fun_eq_iff)
  have h1: "ps_isExecuting ?s" and h2: "ps_phase ?s Second = NotStarted"
    and h3: "ps_phase ?s First = Pending" and h4: "ps_contractCalls ?s = [pauseArgs First]"
    unfolding s by simp_all
  have h5: "(ps_phase ?s First = Entered \<and> ps_contractCalls ?s = [])
         \<or> (ps_phase ?s First = Pending \<and> ps_contractCalls ?s = [pauseArgs First])"
    using h3 h4 by simp
  have split: "runSchedule pauseArgs [First, First, Second, Second, First, Second] idle
               = runSchedule pauseArgs (Second # [Second, First, Second]) ?s"
    by simp
  have d: "ps_phase (runSchedule pauseArgs (Second # [Second, First, Second]) ?s) First = Done"
    unfolding s by (simp add: advance_def)
  from pauseDeposits_one_at_time[where args = pauseArgs and s = ?s, OF h1 h2 h5] d
  have "ps_phase (runSchedule pauseArgs (Second # [Second, First, Second]) ?s) Second = Skipped
        \<and> ps_contractCalls (runSchedule pauseArgs (Second # [Second, First, Second]) ?s)
            = [pauseArgs First]"
    by blast
  with d h1 h2 h3 h4 show ?thesis
    unfolding split by (simp add: pauseArgs_def)
qed

end
